theory Spec2Isabelle
  imports Main "HOL-Library.AList"
begin

section \<open>Labeled collections of the PG model (pg\_utils/pg\_model/base.py)\<close>

text \<open>
  The module defines three classes: \<^verbatim>\<open>LabeledCollection\<close> (a record of named slots that
  can be indexed by integer, by name and by slice), \<^verbatim>\<open>LabeledSubCollection\<close> (a view that
  keeps a reference to a base collection and a sub-list of its names) and
  \<^verbatim>\<open>CollectionPG\<close> (the 21-field subclass that locks attribute addition), and the two
  functions \<^verbatim>\<open>map_collection\<close> and \<^verbatim>\<open>map_PG_fields\<close>.

  Modelling decisions.
  \<^item> Collection objects live in a store indexed by addresses, because views and
    \<^verbatim>\<open>apply(inplace=True)\<close> share the object they are given. A view is a small record
    holding the address of its base.
  \<^item> A Python exception is the \<open>Inl\<close> of a sum; the names are Python's. The store at the
    moment of the raise is not returned.
  \<^item> A slot value is \<open>PyNone\<close> or an opaque object \<open>Obj x\<close>; equality of \<open>'v\<close> stands
    for the value type's own \<^verbatim>\<open>==\<close>/\<^verbatim>\<open>hash\<close>.
  \<^item> The instance dictionary is split: the bookkeeping attributes (\<^verbatim>\<open>_field_names\<close>,
    \<^verbatim>\<open>n_fields\<close>, \<^verbatim>\<open>_iter_name\<close>, \<^verbatim>\<open>_iter_filter\<close>, \<^verbatim>\<open>n_iter\<close>, \<^verbatim>\<open>_is_locked\<close>) are
    record fields, every other instance attribute is an entry of \<open>attrs\<close>. Field names
    are therefore taken to differ from the bookkeeping and method names of the class
    (\<open>own_attribute\<close> below); a schema that reuses one of them overwrites the object's own
    machinery and is outside this model.
  \<^item> Keyword arguments \<^verbatim>\<open>**fields\<close> are an association list; binding them to a
    function's parameters is part of the model of the call (\<open>bind_keywords\<close>).
  \<^item> A Python \<^verbatim>\<open>dict\<close> is an association list with distinct keys in insertion order;
    \<^verbatim>\<open>d[k] = v\<close> is \<open>AList.update k v d\<close>.
\<close>

subsection \<open>Values, errors, keys\<close>

datatype error =
    TypeError | KeyError | IndexError | AttributeError
  | AssertionError | StopIteration | ValueError

datatype 'v pyval = PyNone | Obj 'v

datatype slice = Slice "int option" "int option" "int option"

datatype key = KInt int | KStr string | KSlice slice | KOther

datatype 'v item = Item "'v pyval" | Items "'v pyval list"

datatype 'v yielded = Bare "'v pyval" | Named string "'v pyval"

datatype 'v callable =
    Fun1 "'v pyval \<Rightarrow> 'v pyval"
  | Fun2 "string \<Rightarrow> 'v pyval \<Rightarrow> 'v pyval"

datatype cls = Cls_LabeledCollection | Cls_CollectionPG

type_synonym addr = nat

definition bind_err :: "error + 'a \<Rightarrow> ('a \<Rightarrow> error + 'b) \<Rightarrow> error + 'b" where
  "bind_err m f = (case m of Inl e \<Rightarrow> Inl e | Inr x \<Rightarrow> f x)"

subsection \<open>Python list indexing and slicing\<close>

text \<open>
  \<^verbatim>\<open>xs[i]\<close> counts a negative index from the end and raises \<^verbatim>\<open>IndexError\<close> outside
  \<open>-len \<dots> len - 1\<close>. \<^verbatim>\<open>xs[sl]\<close> follows \<^verbatim>\<open>slice.indices\<close>: a missing step is 1, a
  zero step raises \<^verbatim>\<open>ValueError\<close>, bounds are clipped to the list.
\<close>

definition py_index :: "'a list \<Rightarrow> int \<Rightarrow> error + 'a" where
  "py_index xs i =
     (if 0 \<le> i \<and> i < int (length xs) then Inr (xs ! nat i)
      else if i < 0 \<and> - int (length xs) \<le> i then Inr (xs ! nat (int (length xs) + i))
      else Inl IndexError)"

definition adjust_index :: "int \<Rightarrow> int \<Rightarrow> int \<Rightarrow> int" where
  "adjust_index len step x =
     (if x < 0 then
        (if x + len < 0 then (if step < 0 then - 1 else 0) else x + len)
      else if len \<le> x then (if step < 0 then len - 1 else len)
      else x)"

definition slice_step :: "int option \<Rightarrow> int" where
  "slice_step s = (case s of None \<Rightarrow> 1 | Some k \<Rightarrow> k)"

definition slice_start :: "int \<Rightarrow> int \<Rightarrow> int option \<Rightarrow> int" where
  "slice_start len step a =
     (case a of None \<Rightarrow> (if step < 0 then len - 1 else 0)
              | Some x \<Rightarrow> adjust_index len step x)"

definition slice_stop :: "int \<Rightarrow> int \<Rightarrow> int option \<Rightarrow> int" where
  "slice_stop len step b =
     (case b of None \<Rightarrow> (if step < 0 then - 1 else len)
              | Some x \<Rightarrow> adjust_index len step x)"

definition slice_length :: "int \<Rightarrow> int \<Rightarrow> int \<Rightarrow> int" where
  "slice_length start stop step =
     (if step < 0
      then (if stop < start then (start - stop - 1) div (- step) + 1 else 0)
      else (if start < stop then (stop - start - 1) div step + 1 else 0))"

fun slice_indices :: "nat \<Rightarrow> slice \<Rightarrow> error + nat list" where
  "slice_indices n (Slice a b s) =
     (if slice_step s = 0 then Inl ValueError
      else Inr (map (\<lambda>i. nat (slice_start (int n) (slice_step s) a + int i * slice_step s))
                  [0..<nat (slice_length (slice_start (int n) (slice_step s) a)
                              (slice_stop (int n) (slice_step s) b) (slice_step s))]))"

definition py_slice :: "'a list \<Rightarrow> slice \<Rightarrow> error + 'a list" where
  "py_slice xs sl = bind_err (slice_indices (length xs) sl) (\<lambda>is. Inr (map (\<lambda>i. xs ! i) is))"

subsection \<open>LabeledCollection\<close>

record 'v collection =
  klass :: cls
  field_names :: "string list"
  attrs :: "string \<rightharpoonup> 'v pyval"
  n_fields :: nat
  iter_name :: bool
  iter_filter :: bool
  n_iter :: nat
  is_locked :: bool

text \<open>
  The names the classes define themselves, in the instance (bookkeeping) or in the class
  body (properties, methods, \<^verbatim>\<open>pg_field_names\<close>), and every double-underscore name.
  \<open>hasattr\<close>, \<open>getattr\<close> and \<open>setattr\<close> below describe the other names, which live in
  \<open>attrs\<close>.
\<close>

definition class_members :: "string list" where
  "class_members =
     [''_field_names'', ''n_fields'', ''_iter_name'', ''_iter_filter'', ''n_iter'',
      ''_is_locked'',
      ''_validate_field_entries'', ''iter_name'', ''iter_filter'',
      ''_enable_attribute_addition'', ''_disable_attribute_addition'',
      ''_getitem_by_idx'', ''_getitem_by_slice'', ''_getitem_by_name'',
      ''_setitem_by_idx'', ''_setitem_by_name'', ''_extract_subset'',
      ''apply'', ''_new_obj'', ''copy'', ''generate_collection'',
      ''pg_field_names'', ''vorticity'', ''subset_mag'', ''subset_moments'',
      ''subset_B_equator'', ''subset_B_bound'', ''subset_B_bound_cyl'']"

definition own_attribute :: "string \<Rightarrow> bool" where
  "own_attribute nm \<longleftrightarrow> take 2 nm = ''__'' \<or> nm \<in> set class_members"

definition hasattr :: "'v collection \<Rightarrow> string \<Rightarrow> bool" where
  "hasattr c nm = (attrs c nm \<noteq> None)"

definition getattr :: "'v collection \<Rightarrow> string \<Rightarrow> error + 'v pyval" where
  "getattr c nm = (case attrs c nm of None \<Rightarrow> Inl AttributeError | Some v \<Rightarrow> Inr v)"

text \<open>\<^verbatim>\<open>__setattr__\<close>: a locked object refuses a name it has no attribute for.\<close>

definition setattr :: "'v collection \<Rightarrow> string \<Rightarrow> 'v pyval \<Rightarrow> error + 'v collection" where
  "setattr c nm v =
     (if is_locked c \<and> \<not> hasattr c nm then Inl AttributeError
      else Inr (c\<lparr>attrs := (attrs c)(nm \<mapsto> v)\<rparr>))"

definition enable_attribute_addition :: "'v collection \<Rightarrow> 'v collection" where
  "enable_attribute_addition c = c\<lparr>is_locked := False\<rparr>"

definition disable_attribute_addition :: "'v collection \<Rightarrow> 'v collection" where
  "disable_attribute_addition c = c\<lparr>is_locked := True\<rparr>"

fun validate_field_entries :: "string list \<Rightarrow> (string \<times> 'v pyval) list \<Rightarrow> error + unit" where
  "validate_field_entries names [] = Inr ()"
| "validate_field_entries names ((field_key, v) # flds) =
     (if field_key \<notin> set names then Inl TypeError
      else validate_field_entries names flds)"

fun init_attrs ::
  "'v collection \<Rightarrow> string list \<Rightarrow> (string \<times> 'v pyval) list \<Rightarrow> error + 'v collection" where
  "init_attrs c [] flds = Inr c"
| "init_attrs c (field_key # names) flds =
     bind_err
       (setattr c field_key
          (case map_of flds field_key of Some v \<Rightarrow> v | None \<Rightarrow> PyNone))
       (\<lambda>c'. init_attrs c' names flds)"

text \<open>
  A freshly created instance before \<^verbatim>\<open>__init__\<close> runs; the class is fixed by the
  constructor that was called.
\<close>

definition blank :: "cls \<Rightarrow> 'v collection" where
  "blank k = \<lparr>klass = k, field_names = [], attrs = Map.empty, n_fields = 0,
              iter_name = False, iter_filter = False, n_iter = 0, is_locked = False\<rparr>"

text \<open>
  Binding of the keyword arguments \<^verbatim>\<open>**fields\<close> of a call: a key that is the name of one
  of the function's own parameters (here \<^verbatim>\<open>self\<close> and \<^verbatim>\<open>names\<close>, which the call already
  fills) makes Python raise \<^verbatim>\<open>TypeError\<close> before the body runs.
\<close>

definition bind_keywords :: "string list \<Rightarrow> (string \<times> 'v pyval) list \<Rightarrow> error + unit" where
  "bind_keywords params flds =
     (if \<exists>k \<in> set (map fst flds). k \<in> set params then Inl TypeError else Inr ())"

text \<open>\<^verbatim>\<open>__init__(self, names, **fields)\<close>: the binding of the call, then the body.\<close>

definition LabeledCollection_init ::
  "'v collection \<Rightarrow> string list \<Rightarrow> (string \<times> 'v pyval) list \<Rightarrow> error + 'v collection" where
  "LabeledCollection_init self names flds =
     bind_err (bind_keywords [''self'', ''names''] flds) (\<lambda>_.
      let c0 = (enable_attribute_addition self)\<lparr>field_names := names\<rparr> in
      bind_err (validate_field_entries (field_names c0) flds) (\<lambda>_.
      bind_err (init_attrs c0 names flds) (\<lambda>c1.
      Inr (c1\<lparr>n_fields := length (field_names c1),
               iter_name := False, iter_filter := False, n_iter := 0\<rparr>))))"

definition getitem_by_name :: "'v collection \<Rightarrow> string \<Rightarrow> error + 'v pyval" where
  "getitem_by_name c nm =
     (if nm \<in> set (field_names c) then getattr c nm else Inl KeyError)"

definition getitem_by_idx :: "'v collection \<Rightarrow> int \<Rightarrow> error + 'v pyval" where
  "getitem_by_idx c idx = bind_err (py_index (field_names c) idx) (getitem_by_name c)"

fun get_all :: "(string \<Rightarrow> error + 'v pyval) \<Rightarrow> string list \<Rightarrow> error + 'v pyval list" where
  "get_all g [] = Inr []"
| "get_all g (nm # name_list) =
     bind_err (g nm) (\<lambda>x. bind_err (get_all g name_list) (\<lambda>xs. Inr (x # xs)))"

definition getitem_by_slice :: "'v collection \<Rightarrow> slice \<Rightarrow> error + 'v pyval list" where
  "getitem_by_slice c sl =
     bind_err (py_slice (field_names c) sl) (get_all (getitem_by_name c))"

fun getitem :: "'v collection \<Rightarrow> key \<Rightarrow> error + 'v item" where
  "getitem c (KInt i) = bind_err (getitem_by_idx c i) (\<lambda>x. Inr (Item x))"
| "getitem c (KSlice sl) = bind_err (getitem_by_slice c sl) (\<lambda>xs. Inr (Items xs))"
| "getitem c (KStr nm) = bind_err (getitem_by_name c nm) (\<lambda>x. Inr (Item x))"
| "getitem c KOther = Inl TypeError"

definition setitem_by_name :: "'v collection \<Rightarrow> string \<Rightarrow> 'v pyval \<Rightarrow> error + 'v collection" where
  "setitem_by_name c nm v =
     (if nm \<in> set (field_names c) then setattr c nm v else Inl KeyError)"

definition setitem_by_idx :: "'v collection \<Rightarrow> int \<Rightarrow> 'v pyval \<Rightarrow> error + 'v collection" where
  "setitem_by_idx c idx v =
     bind_err (py_index (field_names c) idx) (\<lambda>nm. setitem_by_name c nm v)"

text \<open>
  \<^verbatim>\<open>__setitem__\<close>: the last branch is \<^verbatim>\<open>return TypeError\<close>, which hands the exception
  class back as a result; nothing is raised and nothing is stored.
\<close>

fun setitem :: "'v collection \<Rightarrow> key \<Rightarrow> 'v pyval \<Rightarrow> error + 'v collection" where
  "setitem c (KInt i) v = setitem_by_idx c i v"
| "setitem c (KStr nm) v = setitem_by_name c nm v"
| "setitem c (KSlice sl) v = Inr c"
| "setitem c KOther v = Inr c"

definition collection_len :: "'v collection \<Rightarrow> nat" where
  "collection_len c = n_fields c"

definition iter :: "'v collection \<Rightarrow> 'v collection" where
  "iter c = c\<lparr>n_iter := 0\<rparr>"

text \<open>The property setters accept a \<^verbatim>\<open>bool\<close> only; the type of the argument says so.\<close>

definition set_iter_name :: "'v collection \<Rightarrow> bool \<Rightarrow> 'v collection" where
  "set_iter_name c option = c\<lparr>iter_name := option\<rparr>"

definition set_iter_filter :: "'v collection \<Rightarrow> bool \<Rightarrow> 'v collection" where
  "set_iter_filter c option = c\<lparr>iter_filter := option\<rparr>"

function collection_next :: "'v collection \<Rightarrow> error + ('v yielded \<times> 'v collection)" where
  "collection_next c =
     (if n_iter c < n_fields c then
        (case getitem_by_idx c (int (n_iter c)) of
           Inl e \<Rightarrow> Inl e
         | Inr item \<Rightarrow>
             let c' = c\<lparr>n_iter := n_iter c + 1\<rparr> in
             if iter_filter c' \<and> item = PyNone then collection_next c'
             else if iter_name c'
             then (case py_index (field_names c') (int (n_iter c')) of
                     Inl e \<Rightarrow> Inl e
                   | Inr nm \<Rightarrow> Inr (Named nm item, c'))
             else Inr (Bare item, c'))
      else Inl StopIteration)"
  by pat_completeness auto
termination
  by (relation "measure (\<lambda>c. n_fields c - n_iter c)") auto

subsection \<open>The store of collection objects\<close>

record 'v heap =
  objs :: "addr \<Rightarrow> 'v collection"
  lim :: addr

definition alloc :: "'v heap \<Rightarrow> 'v collection \<Rightarrow> addr \<times> 'v heap" where
  "alloc h c = (lim h, h\<lparr>objs := (objs h)(lim h := c), lim := Suc (lim h)\<rparr>)"

definition put :: "'v heap \<Rightarrow> addr \<Rightarrow> 'v collection \<Rightarrow> 'v heap" where
  "put h a c = h\<lparr>objs := (objs h)(a := c)\<rparr>"

definition new_LabeledCollection ::
  "'v heap \<Rightarrow> string list \<Rightarrow> (string \<times> 'v pyval) list \<Rightarrow> error + (addr \<times> 'v heap)" where
  "new_LabeledCollection h names flds =
     bind_err (LabeledCollection_init (blank Cls_LabeledCollection) names flds)
       (\<lambda>c. Inr (alloc h c))"

text \<open>Assignment \<^verbatim>\<open>base[key] = val\<close> on the object at an address.\<close>

definition heap_setitem :: "'v heap \<Rightarrow> addr \<Rightarrow> key \<Rightarrow> 'v pyval \<Rightarrow> error + 'v heap" where
  "heap_setitem h a k v = bind_err (setitem (objs h a) k v) (\<lambda>c. Inr (put h a c))"

definition heap_setattr :: "'v heap \<Rightarrow> addr \<Rightarrow> string \<Rightarrow> 'v pyval \<Rightarrow> error + 'v heap" where
  "heap_setattr h a nm v = bind_err (setattr (objs h a) nm v) (\<lambda>c. Inr (put h a c))"

subsection \<open>CollectionPG\<close>

definition pg_field_names :: "string list" where
  "pg_field_names =
     [''Psi'',
      ''Mss'', ''Mpp'', ''Msp'', ''Msz'', ''Mpz'', ''zMss'', ''zMpp'', ''zMsp'',
      ''Bs_e'', ''Bp_e'', ''Bz_e'', ''dBs_dz_e'', ''dBp_dz_e'',
      ''Br_b'', ''Bs_p'', ''Bp_p'', ''Bz_p'', ''Bs_m'', ''Bp_m'', ''Bz_m'']"

text \<open>
  \<^verbatim>\<open>__init__(self, **fields)\<close>: the only parameter of its own is \<^verbatim>\<open>self\<close>; the call
  \<^verbatim>\<open>super().__init__(self.pg_field_names, **fields)\<close> binds the keywords once more.
\<close>

definition CollectionPG_init ::
  "'v collection \<Rightarrow> (string \<times> 'v pyval) list \<Rightarrow> error + 'v collection" where
  "CollectionPG_init self flds =
     bind_err (bind_keywords [''self''] flds) (\<lambda>_.
     bind_err (LabeledCollection_init self pg_field_names flds)
       (\<lambda>c. Inr (disable_attribute_addition c)))"

definition new_CollectionPG ::
  "'v heap \<Rightarrow> (string \<times> 'v pyval) list \<Rightarrow> error + (addr \<times> 'v heap)" where
  "new_CollectionPG h flds =
     bind_err (CollectionPG_init (blank Cls_CollectionPG) flds) (\<lambda>c. Inr (alloc h c))"

subsection \<open>apply, copy, generate\_collection\<close>

text \<open>\<^verbatim>\<open>_new_obj\<close> is overridden in \<^verbatim>\<open>CollectionPG\<close>; the class of the receiver decides.\<close>

definition new_obj :: "'v heap \<Rightarrow> addr \<Rightarrow> error + (addr \<times> 'v heap)" where
  "new_obj h self =
     (case klass (objs h self) of
        Cls_LabeledCollection \<Rightarrow> new_LabeledCollection h (field_names (objs h self)) []
      | Cls_CollectionPG \<Rightarrow> new_CollectionPG h [])"

fun call1 :: "'v callable \<Rightarrow> 'v pyval \<Rightarrow> error + 'v pyval" where
  "call1 (Fun1 f) x = Inr (f x)"
| "call1 (Fun2 f) x = Inl TypeError"

fun call2 :: "'v callable \<Rightarrow> string \<Rightarrow> 'v pyval \<Rightarrow> error + 'v pyval" where
  "call2 (Fun2 f) nm x = Inr (f nm x)"
| "call2 (Fun1 f) nm x = Inl TypeError"

text \<open>
  The loop of \<^verbatim>\<open>apply\<close> over \<^verbatim>\<open>range(self.n_fields)\<close>; \<^verbatim>\<open>self[i_field]\<close> and
  \<^verbatim>\<open>apply_to[i_field] = ...\<close> have an integer key, so they are the by-index accessors.
\<close>

fun apply_loop ::
  "'v heap \<Rightarrow> addr \<Rightarrow> addr \<Rightarrow> 'v callable \<Rightarrow> bool \<Rightarrow> nat list \<Rightarrow> error + 'v heap" where
  "apply_loop h self apply_to f metadata [] = Inr h"
| "apply_loop h self apply_to f metadata (i_field # rest) =
     bind_err
       (if metadata then
          bind_err (py_index (field_names (objs h self)) (int i_field)) (\<lambda>nm.
          bind_err (getitem_by_idx (objs h self) (int i_field)) (\<lambda>x. call2 f nm x))
        else bind_err (getitem_by_idx (objs h self) (int i_field)) (call1 f))
       (\<lambda>y. bind_err (heap_setitem h apply_to (KInt (int i_field)) y)
          (\<lambda>h'. apply_loop h' self apply_to f metadata rest))"

definition collection_apply ::
  "'v heap \<Rightarrow> addr \<Rightarrow> 'v callable \<Rightarrow> bool \<Rightarrow> bool \<Rightarrow> error + (addr \<times> 'v heap)" where
  "collection_apply h self f inplace metadata =
     bind_err (if inplace then Inr (self, h) else new_obj h self) (\<lambda>(apply_to, h0).
     bind_err (apply_loop h0 self apply_to f metadata [0..<n_fields (objs h0 self)])
       (\<lambda>h1. Inr (apply_to, h1)))"

text \<open>The dict comprehension \<^verbatim>\<open>{fname: self[fname] for fname in names}\<close>.\<close>

fun collect_fields ::
  "'v collection \<Rightarrow> string list \<Rightarrow> (string \<times> 'v pyval) list
     \<Rightarrow> error + (string \<times> 'v pyval) list" where
  "collect_fields c [] d = Inr d"
| "collect_fields c (fname # names) d =
     bind_err (getitem_by_name c fname)
       (\<lambda>x. collect_fields c names (AList.update fname x d))"

definition copy :: "'v heap \<Rightarrow> addr \<Rightarrow> error + (addr \<times> 'v heap)" where
  "copy h self =
     (let c = objs h self in
      bind_err (collect_fields c (field_names c) []) (\<lambda>flds.
        case klass c of
          Cls_LabeledCollection \<Rightarrow> new_LabeledCollection h (field_names c) flds
        | Cls_CollectionPG \<Rightarrow> new_CollectionPG h flds))"

text \<open>
  The two comprehensions of \<^verbatim>\<open>generate_collection\<close> walk
  \<^verbatim>\<open>enumerate(self._field_names)\<close> and test \<^verbatim>\<open>index_array[idx]\<close>.
\<close>

fun select_names :: "string list \<Rightarrow> bool list \<Rightarrow> nat \<Rightarrow> error + string list" where
  "select_names [] index_array idx = Inr []"
| "select_names (fname # names) index_array idx =
     bind_err (py_index index_array (int idx)) (\<lambda>b.
     bind_err (select_names names index_array (Suc idx)) (\<lambda>r.
       Inr (if b then fname # r else r)))"

fun collect_selected ::
  "'v collection \<Rightarrow> string list \<Rightarrow> bool list \<Rightarrow> nat \<Rightarrow> (string \<times> 'v pyval) list
     \<Rightarrow> error + (string \<times> 'v pyval) list" where
  "collect_selected c [] index_array idx d = Inr d"
| "collect_selected c (fname # names) index_array idx d =
     bind_err (py_index index_array (int idx)) (\<lambda>b.
       if b then
         bind_err (getitem_by_name c fname)
           (\<lambda>x. collect_selected c names index_array (Suc idx) (AList.update fname x d))
       else collect_selected c names index_array (Suc idx) d)"

definition generate_collection ::
  "'v heap \<Rightarrow> addr \<Rightarrow> bool list \<Rightarrow> error + (addr \<times> 'v heap)" where
  "generate_collection h self index_array =
     (let c = objs h self in
      if length index_array \<noteq> n_fields c then Inl AssertionError
      else
        bind_err (select_names (field_names c) index_array 0) (\<lambda>new_names.
        bind_err (collect_selected c (field_names c) index_array 0 []) (\<lambda>flds.
          new_LabeledCollection h new_names flds)))"

subsection \<open>LabeledSubCollection\<close>

text \<open>
  The view has no \<^verbatim>\<open>n_iter\<close> attribute until \<^verbatim>\<open>__iter__\<close> creates it, and it never has
  a \<^verbatim>\<open>_field_names\<close> attribute.
\<close>

record sub_collection =
  base_collection :: addr
  sub_names :: "string list"
  sub_idx :: "nat list"
  sub_n_fields :: nat
  sub_iter_name :: bool
  sub_iter_filter :: bool
  sub_n_iter :: "nat option"

definition LabeledSubCollection_init ::
  "'v heap \<Rightarrow> addr \<Rightarrow> slice \<Rightarrow> error + sub_collection" where
  "LabeledSubCollection_init h base sub_slice =
     (let tmp_idx = [0..<n_fields (objs h base)] in
      bind_err (py_slice (field_names (objs h base)) sub_slice) (\<lambda>names.
      bind_err (py_slice tmp_idx sub_slice) (\<lambda>idx.
        Inr \<lparr>base_collection = base, sub_names = names, sub_idx = idx,
             sub_n_fields = length names, sub_iter_name = False,
             sub_iter_filter = False, sub_n_iter = None\<rparr>)))"

definition extract_subset :: "'v heap \<Rightarrow> addr \<Rightarrow> slice \<Rightarrow> error + sub_collection" where
  "extract_subset h self sub_slice = LabeledSubCollection_init h self sub_slice"

definition sub_getitem_by_idx :: "'v heap \<Rightarrow> sub_collection \<Rightarrow> int \<Rightarrow> error + 'v pyval" where
  "sub_getitem_by_idx h v idx =
     bind_err (py_index (sub_names v) idx)
       (getitem_by_name (objs h (base_collection v)))"

definition sub_getitem_by_slice ::
  "'v heap \<Rightarrow> sub_collection \<Rightarrow> slice \<Rightarrow> error + 'v pyval list" where
  "sub_getitem_by_slice h v sl =
     bind_err (py_slice (sub_names v) sl)
       (get_all (getitem_by_name (objs h (base_collection v))))"

definition sub_getitem_by_name :: "'v heap \<Rightarrow> sub_collection \<Rightarrow> string \<Rightarrow> error + 'v pyval" where
  "sub_getitem_by_name h v nm =
     (if nm \<in> set (sub_names v) then getitem_by_name (objs h (base_collection v)) nm
      else Inl KeyError)"

fun sub_getitem :: "'v heap \<Rightarrow> sub_collection \<Rightarrow> key \<Rightarrow> error + 'v item" where
  "sub_getitem h v (KInt i) = bind_err (sub_getitem_by_idx h v i) (\<lambda>x. Inr (Item x))"
| "sub_getitem h v (KSlice sl) = bind_err (sub_getitem_by_slice h v sl) (\<lambda>xs. Inr (Items xs))"
| "sub_getitem h v (KStr nm) = bind_err (sub_getitem_by_name h v nm) (\<lambda>x. Inr (Item x))"
| "sub_getitem h v KOther = Inl TypeError"

definition sub_setitem_by_name ::
  "'v heap \<Rightarrow> sub_collection \<Rightarrow> string \<Rightarrow> 'v pyval \<Rightarrow> error + 'v heap" where
  "sub_setitem_by_name h v nm x =
     (if nm \<in> set (sub_names v) then
        bind_err (setitem_by_name (objs h (base_collection v)) nm x)
          (\<lambda>c. Inr (put h (base_collection v) c))
      else Inl KeyError)"

definition sub_setitem_by_idx ::
  "'v heap \<Rightarrow> sub_collection \<Rightarrow> int \<Rightarrow> 'v pyval \<Rightarrow> error + 'v heap" where
  "sub_setitem_by_idx h v idx x =
     bind_err (py_index (sub_names v) idx) (\<lambda>nm.
     bind_err (setitem_by_name (objs h (base_collection v)) nm x)
       (\<lambda>c. Inr (put h (base_collection v) c)))"

fun sub_setitem :: "'v heap \<Rightarrow> sub_collection \<Rightarrow> key \<Rightarrow> 'v pyval \<Rightarrow> error + 'v heap" where
  "sub_setitem h v (KInt i) x = sub_setitem_by_idx h v i x"
| "sub_setitem h v (KStr nm) x = sub_setitem_by_name h v nm x"
| "sub_setitem h v (KSlice sl) x = Inr h"
| "sub_setitem h v KOther x = Inr h"

definition sub_iter :: "sub_collection \<Rightarrow> sub_collection" where
  "sub_iter v = v\<lparr>sub_n_iter := Some 0\<rparr>"

definition set_sub_iter_name :: "sub_collection \<Rightarrow> bool \<Rightarrow> sub_collection" where
  "set_sub_iter_name v option = v\<lparr>sub_iter_name := option\<rparr>"

definition set_sub_iter_filter :: "sub_collection \<Rightarrow> bool \<Rightarrow> sub_collection" where
  "set_sub_iter_filter v option = v\<lparr>sub_iter_filter := option\<rparr>"

text \<open>
  \<^verbatim>\<open>LabeledSubCollection.__next__\<close> reads \<^verbatim>\<open>self._field_names\<close> in the
  \<^verbatim>\<open>_iter_name\<close> branch; the view has no such attribute.
\<close>

function sub_next ::
  "'v heap \<Rightarrow> sub_collection \<Rightarrow> error + ('v yielded \<times> sub_collection)" where
  "sub_next h v =
     (case sub_n_iter v of
        None \<Rightarrow> Inl AttributeError
      | Some k \<Rightarrow>
          if k < sub_n_fields v then
            (case sub_getitem_by_idx h v (int k) of
               Inl e \<Rightarrow> Inl e
             | Inr item \<Rightarrow>
                 let v' = v\<lparr>sub_n_iter := Some (k + 1)\<rparr> in
                 if sub_iter_filter v' \<and> item = PyNone then sub_next h v'
                 else if sub_iter_name v' then Inl AttributeError
                 else Inr (Bare item, v'))
          else Inl StopIteration)"
  by pat_completeness auto
termination
  by (relation "measure (\<lambda>(h, v). sub_n_fields v - the (sub_n_iter v))") auto

definition vorticity :: "'v collection \<Rightarrow> error + 'v pyval" where
  "vorticity c = getattr c ''Psi''"

definition subset_mag :: "'v heap \<Rightarrow> addr \<Rightarrow> error + sub_collection" where
  "subset_mag h self = extract_subset h self (Slice (Some 1) None None)"

definition subset_moments :: "'v heap \<Rightarrow> addr \<Rightarrow> error + sub_collection" where
  "subset_moments h self = extract_subset h self (Slice (Some 1) (Some 9) None)"

definition subset_B_equator :: "'v heap \<Rightarrow> addr \<Rightarrow> error + sub_collection" where
  "subset_B_equator h self = extract_subset h self (Slice (Some 9) (Some 14) None)"

definition subset_B_bound :: "'v heap \<Rightarrow> addr \<Rightarrow> error + sub_collection" where
  "subset_B_bound h self = extract_subset h self (Slice (Some 14) None None)"

definition subset_B_bound_cyl :: "'v heap \<Rightarrow> addr \<Rightarrow> error + sub_collection" where
  "subset_B_bound_cyl h self = extract_subset h self (Slice (Some 15) None None)"

subsection \<open>Mapping one collection to another\<close>

fun map_by_name ::
  "'v collection \<Rightarrow> 'v collection \<Rightarrow> string list \<Rightarrow> ('v pyval \<times> 'v pyval) list
     \<Rightarrow> error + ('v pyval \<times> 'v pyval) list" where
  "map_by_name maps_from maps_to [] d = Inr d"
| "map_by_name maps_from maps_to (fname # names) d =
     bind_err (getitem_by_name maps_from fname) (\<lambda>k.
     bind_err (getitem_by_name maps_to fname) (\<lambda>x.
       map_by_name maps_from maps_to names (AList.update k x d)))"

definition map_collection ::
  "'v collection \<Rightarrow> 'v collection \<Rightarrow> error + ('v pyval \<times> 'v pyval) list" where
  "map_collection maps_from maps_to =
     (if field_names maps_from \<noteq> field_names maps_to then Inl AssertionError
      else map_by_name maps_from maps_to (field_names maps_to) [])"

fun map_by_position ::
  "'v collection \<Rightarrow> 'v collection \<Rightarrow> nat list \<Rightarrow> ('v pyval \<times> 'v pyval) list
     \<Rightarrow> error + ('v pyval \<times> 'v pyval) list" where
  "map_by_position maps_from maps_to [] d = Inr d"
| "map_by_position maps_from maps_to (i_field # rest) d =
     bind_err (getitem_by_idx maps_from (int i_field)) (\<lambda>k.
     bind_err (getitem_by_idx maps_to (int i_field)) (\<lambda>x.
       map_by_position maps_from maps_to rest (AList.update k x d)))"

definition map_PG_fields ::
  "'v collection \<Rightarrow> 'v collection \<Rightarrow> error + ('v pyval \<times> 'v pyval) list" where
  "map_PG_fields maps_from maps_to =
     map_by_position maps_from maps_to [0..<n_fields maps_from] []"

subsection \<open>Representation invariant\<close>

text \<open>
  What every constructor establishes and every method keeps: \<^verbatim>\<open>n_fields\<close> is the length
  of the schema, every schema name has an attribute, and an instance of \<^verbatim>\<open>CollectionPG\<close>
  has the 21-name schema and is locked. The last conjunct is the scope of the model: no
  schema name is one of the names the classes define themselves.
\<close>

definition well_formed :: "'v collection \<Rightarrow> bool" where
  "well_formed c \<longleftrightarrow>
     n_fields c = length (field_names c) \<and>
     set (field_names c) \<subseteq> dom (attrs c) \<and>
     (klass c = Cls_CollectionPG \<longrightarrow> field_names c = pg_field_names \<and> is_locked c) \<and>
     (\<forall>nm \<in> set (field_names c). \<not> own_attribute nm)"

text \<open>The value a collection holds under a name, once the name is known to be a slot.\<close>

definition slot :: "'v collection \<Rightarrow> string \<Rightarrow> 'v pyval" where
  "slot c nm = the (attrs c nm)"

definition empty_heap :: "'v heap" where
  "empty_heap = \<lparr>objs = (\<lambda>_. blank Cls_LabeledCollection), lim = 0\<rparr>"

subsection \<open>Example objects\<close>

text \<open>
  The scenario of the specification: \<^verbatim>\<open>CollectionPG(Psi=x0, Mss=x1, Bs_e=x2)\<close> created in
  an empty store, and its view \<^verbatim>\<open>subset_moments()\<close>. The objects \<open>x0, x1, x2\<close> are the
  numbers 10, 11, 12.
\<close>

definition pg_example :: "nat collection" where
  "pg_example = projr (CollectionPG_init (blank Cls_CollectionPG)
      [(''Psi'', Obj 10), (''Mss'', Obj 11), (''Bs_e'', Obj 12)])"

definition pg_heap :: "nat heap" where
  "pg_heap = snd (projr (new_CollectionPG empty_heap
      [(''Psi'', Obj 10), (''Mss'', Obj 11), (''Bs_e'', Obj 12)]))"

definition pg_moments :: sub_collection where
  "pg_moments = projr (subset_moments pg_heap 0)"

definition value_at :: "'v collection \<Rightarrow> nat \<Rightarrow> 'v pyval" where
  "value_at c i = slot c (field_names c ! i)"

definition pg_target :: "nat collection" where
  "pg_target = projr (CollectionPG_init (blank Cls_CollectionPG)
      [(''Psi'', Obj 20), (''Mss'', Obj 21), (''Bs_e'', Obj 22), (''Bz_m'', Obj 23)])"

definition short_example :: "nat collection" where
  "short_example = projr (LabeledCollection_init (blank Cls_LabeledCollection)
      [''Psi''] [(''Psi'', Obj 30)])"

definition add_hundred :: "nat pyval \<Rightarrow> nat pyval" where
  "add_hundred v = (case v of PyNone \<Rightarrow> Obj 100 | Obj n \<Rightarrow> Obj (n + 100))"

text \<open>\<^verbatim>\<open>LabeledCollection(['names', 'b'], b=x2)\<close> created in an empty store.\<close>

definition names_heap :: "nat heap" where
  "names_heap = snd (projr (new_LabeledCollection empty_heap [''names'', ''b'']
      [(''b'', Obj 12)]))"

definition equatorial_mask :: "bool list" where
  "equatorial_mask =
     [True,
      True, True, True, True, True, True, True, True,
      True, True, True, True, True,
      False, False, False, False, False, False, False]"

section \<open>Basic facts\<close>

lemma bind_err_Inl [simp]: "bind_err (Inl e) f = Inl e"
  by (simp add: bind_err_def)

lemma bind_err_Inr [simp]: "bind_err (Inr x) f = f x"
  by (simp add: bind_err_def)

lemma validate_rejects:
  "\<exists>k \<in> fst ` set flds. k \<notin> set names \<Longrightarrow> validate_field_entries names flds = Inl TypeError"
  by (induction flds) force+

lemma validate_accepts:
  "fst ` set flds \<subseteq> set names \<Longrightarrow> validate_field_entries names flds = Inr ()"
  by (induction flds) auto

lemma bind_keywords_cases:
  "bind_keywords params flds = Inl TypeError \<or> bind_keywords params flds = Inr ()"
  by (simp add: bind_keywords_def)

lemma bind_keywords_ok:
  "\<forall>k \<in> fst ` set flds. k \<notin> set params \<Longrightarrow> bind_keywords params flds = Inr ()"
  by (auto simp: bind_keywords_def)

lemma bind_keywords_fail:
  "\<exists>k \<in> fst ` set flds. k \<in> set params \<Longrightarrow> bind_keywords params flds = Inl TypeError"
  by (auto simp: bind_keywords_def)

lemma LabeledCollection_init_rejects:
  assumes "\<exists>k \<in> fst ` set flds. k \<notin> set names"
  shows "LabeledCollection_init self names flds = Inl TypeError"
  using assms bind_keywords_cases [of "[''self'', ''names'']" flds]
  by (auto simp: LabeledCollection_init_def Let_def validate_rejects)

lemma CollectionPG_init_rejects:
  assumes "\<exists>k \<in> fst ` set flds. k \<notin> set pg_field_names"
  shows "CollectionPG_init self flds = Inl TypeError"
  using assms bind_keywords_cases [of "[''self'']" flds]
  by (auto simp: CollectionPG_init_def LabeledCollection_init_rejects)

section \<open>Construction\<close>

text \<open>
  Claim C7. Whatever the names and whatever the object being initialised, a keyword
  argument whose key is not among the names makes \<^verbatim>\<open>LabeledCollection.__init__\<close> raise
  \<^verbatim>\<open>TypeError\<close> (the spec's SchemaViolation), so no object is created; the same holds
  for \<^verbatim>\<open>CollectionPG.__init__\<close> with respect to its 21 names.
\<close>

theorem construct_unknown_key_fails:
  "((\<exists>k \<in> fst ` set flds. k \<notin> set names) \<longrightarrow>
      LabeledCollection_init self names flds = Inl TypeError \<and>
      new_LabeledCollection h names flds = Inl TypeError) \<and>
   ((\<exists>k \<in> fst ` set flds. k \<notin> set pg_field_names) \<longrightarrow>
      CollectionPG_init self flds = Inl TypeError \<and>
      new_CollectionPG h flds = Inl TypeError)"
  by (simp add: new_LabeledCollection_def new_CollectionPG_def
      LabeledCollection_init_rejects CollectionPG_init_rejects)

theorem construct_unknown_key_fails_witness:
  "(\<exists>k \<in> fst ` set [(''Psi'', Obj (1::nat)), (''b'', Obj 2)]. k \<notin> set [''Psi'']) \<and>
   (\<exists>k \<in> fst ` set [(''Psi'', Obj (1::nat)), (''b'', Obj 2)]. k \<notin> set pg_field_names) \<and>
   LabeledCollection_init (blank Cls_LabeledCollection) [''Psi'']
      [(''Psi'', Obj (1::nat)), (''b'', Obj 2)] = Inl TypeError \<and>
   new_LabeledCollection empty_heap [''Psi'']
      [(''Psi'', Obj (1::nat)), (''b'', Obj 2)] = Inl TypeError \<and>
   CollectionPG_init (blank Cls_CollectionPG) [(''Psi'', Obj (1::nat)), (''b'', Obj 2)]
      = Inl TypeError \<and>
   new_CollectionPG empty_heap [(''Psi'', Obj (1::nat)), (''b'', Obj 2)] = Inl TypeError"
proof -
  have a: "\<exists>k \<in> fst ` set [(''Psi'', Obj (1::nat)), (''b'', Obj 2)]. k \<notin> set [''Psi'']"
    by simp
  have b: "\<exists>k \<in> fst ` set [(''Psi'', Obj (1::nat)), (''b'', Obj 2)]. k \<notin> set pg_field_names"
    by (simp add: pg_field_names_def)
  show ?thesis
    using a b construct_unknown_key_fails
      [of "[(''Psi'', Obj (1::nat)), (''b'', Obj 2)]" "[''Psi'']" "blank Cls_LabeledCollection"
          empty_heap]
      construct_unknown_key_fails
      [of "[(''Psi'', Obj (1::nat)), (''b'', Obj 2)]" "[''Psi'']" "blank Cls_CollectionPG"
          empty_heap]
    by blast
qed

section \<open>Indexing and slicing\<close>

lemma py_index_nat: "i < length xs \<Longrightarrow> py_index xs (int i) = Inr (xs ! i)"
  by (simp add: py_index_def)

lemma py_index_neg:
  "- int (length xs) \<le> k \<Longrightarrow> k < 0 \<Longrightarrow> py_index xs k = Inr (xs ! nat (int (length xs) + k))"
  by (simp add: py_index_def)

lemma py_index_mem: "py_index xs i = Inr x \<Longrightarrow> x \<in> set xs"
  by (auto simp: py_index_def split: if_splits)

lemma adjust_index_pos0:
  "0 < step \<Longrightarrow> 0 \<le> len \<Longrightarrow> 0 \<le> adjust_index len step x \<and> adjust_index len step x \<le> len"
  by (simp add: adjust_index_def)

lemma adjust_index_neg:
  "step < 0 \<Longrightarrow> 0 \<le> len \<Longrightarrow> - 1 \<le> adjust_index len step x \<and> adjust_index len step x \<le> len - 1"
  by (simp add: adjust_index_def)

lemma div_mult_le_int: "0 < (k::int) \<Longrightarrow> (x div k) * k \<le> x"
proof -
  assume k: "0 < k"
  have "0 \<le> x mod k" using k by simp
  moreover have "(x div k) * k + x mod k = x" by simp
  ultimately show ?thesis by linarith
qed

lemma walk_up:
  fixes start stop step :: int
  assumes "0 < step" "0 \<le> start" "stop \<le> len"
    and "int i < (stop - start - 1) div step + 1"
  shows "0 \<le> start + int i * step \<and> start + int i * step < len"
proof -
  have "int i \<le> (stop - start - 1) div step" using assms(4) by simp
  then have "int i * step \<le> ((stop - start - 1) div step) * step"
    using assms(1) by (simp add: mult_right_mono)
  also have "\<dots> \<le> stop - start - 1"
    using assms(1) by (rule div_mult_le_int)
  finally have "start + int i * step < stop" by simp
  moreover have "0 \<le> int i * step" using assms(1) by simp
  ultimately show ?thesis using assms(2,3) by linarith
qed

lemma walk_down:
  fixes start stop step :: int
  assumes "step < 0" "- 1 \<le> stop" "start \<le> len - 1"
    and "int i < (start - stop - 1) div (- step) + 1"
  shows "0 \<le> start + int i * step \<and> start + int i * step < len"
proof -
  have pos: "0 < - step" using assms(1) by simp
  have "int i \<le> (start - stop - 1) div (- step)" using assms(4) by simp
  then have "int i * (- step) \<le> ((start - stop - 1) div (- step)) * (- step)"
    using pos by (simp only: mult_right_mono less_imp_le)
  also have "\<dots> \<le> start - stop - 1"
    using pos by (rule div_mult_le_int)
  finally have "stop < start + int i * step" by simp
  moreover have "int i * step \<le> 0" using assms(1) by (simp add: mult_nonneg_nonpos)
  ultimately show ?thesis using assms(2,3) by linarith
qed

lemma slice_start_range:
  "step \<noteq> 0 \<Longrightarrow>
   (0 < step \<longrightarrow> 0 \<le> slice_start (int n) step a) \<and>
   (step < 0 \<longrightarrow> slice_start (int n) step a \<le> int n - 1)"
  by (auto simp: slice_start_def adjust_index_def split: option.splits)

lemma slice_stop_range:
  "step \<noteq> 0 \<Longrightarrow>
   (0 < step \<longrightarrow> slice_stop (int n) step b \<le> int n) \<and>
   (step < 0 \<longrightarrow> - 1 \<le> slice_stop (int n) step b)"
  by (auto simp: slice_stop_def adjust_index_def split: option.splits)

lemma slice_indices_bound:
  assumes "slice_indices n sl = Inr js" "i \<in> set js"
  shows "i < n"
proof (cases sl)
  case (Slice a b s)
  define step where "step = slice_step s"
  define start where "start = slice_start (int n) step a"
  define stop where "stop = slice_stop (int n) step b"
  have nz: "step \<noteq> 0"
    using assms(1) Slice by (auto simp: step_def split: if_splits)
  have "js = map (\<lambda>i. nat (start + int i * step)) [0..<nat (slice_length start stop step)]"
    using assms(1) Slice nz by (auto simp: step_def start_def stop_def)
  with assms(2) obtain j where j: "j < nat (slice_length start stop step)"
      "i = nat (start + int j * step)"
    by auto
  have "0 \<le> start + int j * step \<and> start + int j * step < int n"
  proof (cases "step < 0")
    case True
    have "- 1 \<le> stop" "start \<le> int n - 1"
      using True nz slice_stop_range [of step n b] slice_start_range [of step n a]
      by (simp_all add: start_def stop_def)
    moreover have "int j < (start - stop - 1) div (- step) + 1"
      using j(1) True by (auto simp: slice_length_def split: if_splits)
    ultimately show ?thesis
      using True walk_down by blast
  next
    case False
    then have pos: "0 < step" using nz by simp
    have "stop \<le> int n" "0 \<le> start"
      using pos nz slice_stop_range [of step n b] slice_start_range [of step n a]
      by (simp_all add: start_def stop_def)
    moreover have "int j < (stop - start - 1) div step + 1"
      using j(1) pos by (auto simp: slice_length_def split: if_splits)
    ultimately show ?thesis
      using pos walk_up by blast
  qed
  then show ?thesis using j(2) by linarith
qed

lemma py_slice_iff:
  "py_slice xs sl = Inr ys \<longleftrightarrow>
     (\<exists>js. slice_indices (length xs) sl = Inr js \<and> ys = map (\<lambda>i. xs ! i) js)"
  by (auto simp: py_slice_def bind_err_def split: sum.splits)

lemma py_slice_subset:
  assumes "py_slice xs sl = Inr ys"
  shows "set ys \<subseteq> set xs"
proof
  fix y assume "y \<in> set ys"
  moreover obtain js where js: "slice_indices (length xs) sl = Inr js" "ys = map (\<lambda>i. xs ! i) js"
    using assms py_slice_iff by blast
  ultimately obtain j where "j \<in> set js" "y = xs ! j" by auto
  then show "y \<in> set xs"
    using slice_indices_bound [OF js(1)] by simp
qed

section \<open>Construction establishes the invariant\<close>

lemma init_attrs_unlocked:
  "\<not> is_locked c \<Longrightarrow>
   init_attrs c ks flds =
     Inr (c\<lparr>attrs := (\<lambda>n. if n \<in> set ks
                then Some (case map_of flds n of Some v \<Rightarrow> v | None \<Rightarrow> PyNone)
                else attrs c n)\<rparr>)"
proof (induction ks arbitrary: c)
  case Nil
  then show ?case by simp
next
  case (Cons k ks)
  define x where "x = (case map_of flds k of Some v \<Rightarrow> v | None \<Rightarrow> PyNone)"
  define c' where "c' = c\<lparr>attrs := (attrs c)(k \<mapsto> x)\<rparr>"
  have unlocked: "\<not> is_locked c'" using Cons.prems by (simp add: c'_def)
  have step: "init_attrs c (k # ks) flds = init_attrs c' ks flds"
    using Cons.prems by (simp add: setattr_def c'_def x_def)
  have fn: "(\<lambda>n. if n \<in> set ks
            then Some (case map_of flds n of Some v \<Rightarrow> v | None \<Rightarrow> PyNone)
            else attrs c' n)
      = (\<lambda>n. if n \<in> set (k # ks)
            then Some (case map_of flds n of Some v \<Rightarrow> v | None \<Rightarrow> PyNone)
            else attrs c n)"
    by (rule ext) (simp add: c'_def x_def)
  have "init_attrs c' ks flds = Inr (c'\<lparr>attrs := (\<lambda>n. if n \<in> set ks
            then Some (case map_of flds n of Some v \<Rightarrow> v | None \<Rightarrow> PyNone)
            else attrs c' n)\<rparr>)"
    by (rule Cons.IH [OF unlocked])
  also have "\<dots> = Inr (c'\<lparr>attrs := (\<lambda>n. if n \<in> set (k # ks)
            then Some (case map_of flds n of Some v \<Rightarrow> v | None \<Rightarrow> PyNone)
            else attrs c n)\<rparr>)"
    by (simp only: fn)
  also have "\<dots> = Inr (c\<lparr>attrs := (\<lambda>n. if n \<in> set (k # ks)
            then Some (case map_of flds n of Some v \<Rightarrow> v | None \<Rightarrow> PyNone)
            else attrs c n)\<rparr>)"
    by (simp add: c'_def)
  finally show ?case using step by simp
qed

lemma LabeledCollection_init_ok:
  assumes "fst ` set flds \<subseteq> set names"
    and "''self'' \<notin> fst ` set flds" and "''names'' \<notin> fst ` set flds"
  shows "LabeledCollection_init self names flds =
     Inr (self\<lparr>field_names := names,
              attrs := (\<lambda>n. if n \<in> set names
                 then Some (case map_of flds n of Some v \<Rightarrow> v | None \<Rightarrow> PyNone)
                 else attrs self n),
              n_fields := length names, iter_name := False, iter_filter := False,
              n_iter := 0, is_locked := False\<rparr>)"
proof -
  have "bind_keywords [''self'', ''names''] flds = Inr ()"
    using assms(2,3) by (intro bind_keywords_ok) force
  then show ?thesis
    using assms(1)
    by (simp add: LabeledCollection_init_def Let_def validate_accepts init_attrs_unlocked
        enable_attribute_addition_def cong: if_cong)
qed

lemma pg_field_names_plain: "\<forall>nm \<in> set pg_field_names. \<not> own_attribute nm"
  by (simp add: pg_field_names_def own_attribute_def class_members_def)

lemma LabeledCollection_init_well_formed:
  assumes "LabeledCollection_init (blank Cls_LabeledCollection) names flds = Inr c"
    and "\<forall>nm \<in> set names. \<not> own_attribute nm"
  shows "well_formed c \<and> field_names c = names \<and> klass c = Cls_LabeledCollection
         \<and> \<not> is_locked c"
proof -
  have keys: "fst ` set flds \<subseteq> set names"
  proof (rule ccontr)
    assume "\<not> fst ` set flds \<subseteq> set names"
    then have "\<exists>k \<in> fst ` set flds. k \<notin> set names" by blast
    then have "LabeledCollection_init (blank Cls_LabeledCollection) names flds = Inl TypeError"
      by (rule LabeledCollection_init_rejects)
    with assms show False by simp
  qed
  have free: "''self'' \<notin> fst ` set flds" "''names'' \<notin> fst ` set flds"
  proof -
    have "bind_keywords [''self'', ''names''] flds \<noteq> Inl TypeError"
      using assms(1) by (auto simp: LabeledCollection_init_def)
    then have "\<not> (\<exists>k \<in> fst ` set flds. k \<in> set [''self'', ''names''])"
      using bind_keywords_fail [of flds "[''self'', ''names'']"] by blast
    then show "''self'' \<notin> fst ` set flds" "''names'' \<notin> fst ` set flds"
      by auto
  qed
  from LabeledCollection_init_ok [OF keys free, of "blank Cls_LabeledCollection"] assms
  show ?thesis
    by (auto simp: well_formed_def blank_def)
qed

lemma CollectionPG_init_ok:
  assumes "fst ` set flds \<subseteq> set pg_field_names"
  shows "CollectionPG_init self flds =
     Inr (self\<lparr>field_names := pg_field_names,
              attrs := (\<lambda>n. if n \<in> set pg_field_names
                 then Some (case map_of flds n of Some v \<Rightarrow> v | None \<Rightarrow> PyNone)
                 else attrs self n),
              n_fields := length pg_field_names, iter_name := False, iter_filter := False,
              n_iter := 0, is_locked := True\<rparr>)"
proof -
  have free: "''self'' \<notin> fst ` set flds" "''names'' \<notin> fst ` set flds"
    using assms by (auto simp: pg_field_names_def)
  then have "bind_keywords [''self''] flds = Inr ()"
    by (intro bind_keywords_ok) force
  then show ?thesis
    by (simp add: CollectionPG_init_def LabeledCollection_init_ok [OF assms free]
        disable_attribute_addition_def)
qed

lemma CollectionPG_init_well_formed:
  assumes "CollectionPG_init (blank Cls_CollectionPG) flds = Inr c"
  shows "well_formed c \<and> klass c = Cls_CollectionPG"
proof -
  have "fst ` set flds \<subseteq> set pg_field_names"
  proof (rule ccontr)
    assume "\<not> fst ` set flds \<subseteq> set pg_field_names"
    then have "\<exists>k \<in> fst ` set flds. k \<notin> set pg_field_names" by blast
    then have "CollectionPG_init (blank Cls_CollectionPG) flds = Inl TypeError"
      by (rule CollectionPG_init_rejects)
    with assms show False by simp
  qed
  from CollectionPG_init_ok [OF this, of "blank Cls_CollectionPG"] assms pg_field_names_plain
  show ?thesis
    by (auto simp: well_formed_def blank_def)
qed

section \<open>Reading and writing a slot\<close>

lemma getitem_by_name_ok:
  "well_formed c \<Longrightarrow> nm \<in> set (field_names c) \<Longrightarrow> getitem_by_name c nm = Inr (slot c nm)"
  by (auto simp: well_formed_def getitem_by_name_def getattr_def slot_def split: option.splits)

lemma setitem_by_name_ok:
  "well_formed c \<Longrightarrow> nm \<in> set (field_names c) \<Longrightarrow>
   setitem_by_name c nm v = Inr (c\<lparr>attrs := (attrs c)(nm \<mapsto> v)\<rparr>)"
  by (auto simp: well_formed_def setitem_by_name_def setattr_def hasattr_def)

lemma well_formed_update:
  "well_formed c \<Longrightarrow> well_formed (c\<lparr>attrs := (attrs c)(nm \<mapsto> v)\<rparr>)"
  by (auto simp: well_formed_def)

lemma slot_update:
  "slot (c\<lparr>attrs := (attrs c)(nm \<mapsto> v)\<rparr>) nm' = (if nm' = nm then v else slot c nm')"
  by (simp add: slot_def)

section \<open>The store\<close>

lemma put_same [simp]: "objs (put h a c) a = c"
  by (simp add: put_def)

lemma put_other [simp]: "b \<noteq> a \<Longrightarrow> objs (put h a c) b = objs h b"
  by (simp add: put_def)

lemma put_lim [simp]: "lim (put h a c) = lim h"
  by (simp add: put_def)

lemma put_self [simp]: "put h a (objs h a) = h"
  by (simp add: put_def)

lemma put_put [simp]: "put (put h a c) a c' = put h a c'"
  by (simp add: put_def)

lemma alloc_simps [simp]:
  "fst (alloc h c) = lim h"
  "objs (snd (alloc h c)) (lim h) = c"
  "b \<noteq> lim h \<Longrightarrow> objs (snd (alloc h c)) b = objs h b"
  "lim (snd (alloc h c)) = Suc (lim h)"
  by (simp_all add: alloc_def)

section \<open>Views\<close>

lemma extract_subset_view:
  assumes "extract_subset h a sl = Inr v"
  shows "base_collection v = a" and "set (sub_names v) \<subseteq> set (field_names (objs h a))"
    and "sub_n_fields v = length (sub_names v)"
    and "sub_iter_name v = False" and "sub_iter_filter v = False" and "sub_n_iter v = None"
proof -
  from assms obtain names idx where
    names: "py_slice (field_names (objs h a)) sl = Inr names"
    and v: "v = \<lparr>base_collection = a, sub_names = names, sub_idx = idx,
             sub_n_fields = length names, sub_iter_name = False,
             sub_iter_filter = False, sub_n_iter = None\<rparr>"
    by (auto simp: extract_subset_def LabeledSubCollection_init_def Let_def bind_err_def
        split: sum.splits)
  show "base_collection v = a" "sub_n_fields v = length (sub_names v)"
    "sub_iter_name v = False" "sub_iter_filter v = False" "sub_n_iter v = None"
    by (simp_all add: v)
  show "set (sub_names v) \<subseteq> set (field_names (objs h a))"
    using py_slice_subset [OF names] by (simp add: v)
qed

section \<open>The example objects\<close>

lemma pg_example_keys:
  "fst ` set [(''Psi'', Obj (10::nat)), (''Mss'', Obj 11), (''Bs_e'', Obj 12)]
     \<subseteq> set pg_field_names"
  by (simp add: pg_field_names_def)

lemma pg_example_init:
  "CollectionPG_init (blank Cls_CollectionPG)
      [(''Psi'', Obj 10), (''Mss'', Obj 11), (''Bs_e'', Obj 12)] = Inr pg_example"
  using CollectionPG_init_ok [OF pg_example_keys] by (simp add: pg_example_def)

lemma pg_example_well_formed: "well_formed pg_example" "klass pg_example = Cls_CollectionPG"
  using CollectionPG_init_well_formed [OF pg_example_init] by simp_all

lemma pg_example_fields:
  "field_names pg_example = pg_field_names" "n_fields pg_example = 21" "is_locked pg_example"
  "iter_name pg_example = False" "iter_filter pg_example = False" "n_iter pg_example = 0"
  "attrs pg_example = (\<lambda>n. if n \<in> set pg_field_names
       then Some (case map_of [(''Psi'', Obj 10), (''Mss'', Obj 11), (''Bs_e'', Obj 12)] n of
                    Some v \<Rightarrow> v | None \<Rightarrow> PyNone)
       else None)"
  using CollectionPG_init_ok [OF pg_example_keys, of "blank Cls_CollectionPG"]
  by (simp_all add: pg_example_def blank_def pg_field_names_def cong: if_cong)

lemma pg_heap_eq: "objs pg_heap 0 = pg_example" "lim pg_heap = 1"
  by (simp_all add: pg_heap_def new_CollectionPG_def pg_example_init alloc_def empty_heap_def)

lemma pg_moments_eq:
  "subset_moments pg_heap 0 = Inr pg_moments"
  "sub_names pg_moments = [''Mss'', ''Mpp'', ''Msp'', ''Msz'', ''Mpz'', ''zMss'', ''zMpp'', ''zMsp'']"
  "sub_n_fields pg_moments = 8"
  unfolding pg_moments_def
  by (simp_all add: subset_moments_def extract_subset_def LabeledSubCollection_init_def
      pg_heap_eq pg_example_fields py_slice_def slice_step_def slice_start_def slice_stop_def
      slice_length_def adjust_index_def pg_field_names_def upt_conv_Cons)

lemma pg_slots:
  "slot pg_example ''Psi'' = Obj 10" "slot pg_example ''Mss'' = Obj 11"
  "slot pg_example ''Bs_e'' = Obj 12" "slot pg_example ''Bz_m'' = PyNone"
  by (simp_all add: slot_def pg_example_fields pg_field_names_def)

lemma pg_moments_base:
  "base_collection pg_moments = 0" "sub_iter_name pg_moments = False"
  "sub_iter_filter pg_moments = False" "sub_n_iter pg_moments = None"
  using extract_subset_view [of pg_heap 0 "Slice (Some 1) (Some 9) None" pg_moments]
    pg_moments_eq(1)
  by (simp_all add: subset_moments_def)

lemma pg_target_well_formed: "well_formed pg_target" "field_names pg_target = pg_field_names"
  "n_fields pg_target = 21"
proof -
  have keys: "fst ` set [(''Psi'', Obj (20::nat)), (''Mss'', Obj 21), (''Bs_e'', Obj 22),
      (''Bz_m'', Obj 23)] \<subseteq> set pg_field_names"
    by (simp add: pg_field_names_def)
  have init: "CollectionPG_init (blank Cls_CollectionPG)
      [(''Psi'', Obj 20), (''Mss'', Obj 21), (''Bs_e'', Obj 22), (''Bz_m'', Obj 23)]
      = Inr pg_target"
    using CollectionPG_init_ok [OF keys] by (simp add: pg_target_def)
  show "well_formed pg_target"
    using CollectionPG_init_well_formed [OF init] by simp
  then show "field_names pg_target = pg_field_names"
    using CollectionPG_init_well_formed [OF init] by (simp add: well_formed_def)
  show "n_fields pg_target = 21"
    using CollectionPG_init_ok [OF keys, of "blank Cls_CollectionPG"]
    by (simp add: pg_target_def pg_field_names_def)
qed

lemma short_example_well_formed: "well_formed short_example" "n_fields short_example = 1"
  "field_names short_example = [''Psi'']"
proof -
  have keys: "fst ` set [(''Psi'', Obj (30::nat))] \<subseteq> set [''Psi'']"
    by simp
  have init: "LabeledCollection_init (blank Cls_LabeledCollection) [''Psi'']
      [(''Psi'', Obj 30)] = Inr short_example"
    using LabeledCollection_init_ok [OF keys] by (simp add: short_example_def)
  have plain: "\<forall>nm \<in> set [''Psi'']. \<not> own_attribute nm"
    by (simp add: own_attribute_def class_members_def)
  show "well_formed short_example" "field_names short_example = [''Psi'']"
    using LabeledCollection_init_well_formed [OF init plain] by simp_all
  then show "n_fields short_example = 1"
    by (simp add: well_formed_def)
qed

section \<open>Negative indices\<close>

text \<open>
  Claim C9. With \<open>n\<close> fields and \<open>-n \<le> k \<le> -1\<close>, reading \<^verbatim>\<open>c[k]\<close> gives the value of the
  field at position \<open>n + k\<close> and \<^verbatim>\<open>c[k] = x\<close> writes that field, exactly as the
  non-negative index \<open>n + k\<close> does; no error is raised. A view behaves the same with
  respect to its own names.
\<close>

theorem negative_index_counts_from_end:
  "(well_formed c \<and> - int (n_fields c) \<le> k \<and> k \<le> - 1 \<longrightarrow>
      getitem c (KInt k) = Inr (Item (slot c (field_names c ! nat (int (n_fields c) + k)))) \<and>
      getitem c (KInt k) = getitem c (KInt (int (n_fields c) + k)) \<and>
      setitem c (KInt k) x =
        Inr (c\<lparr>attrs := (attrs c)(field_names c ! nat (int (n_fields c) + k) \<mapsto> x)\<rparr>) \<and>
      setitem c (KInt k) x = setitem c (KInt (int (n_fields c) + k)) x) \<and>
   (well_formed (objs h a) \<and> extract_subset h a sl = Inr v \<and>
    - int (sub_n_fields v) \<le> j \<and> j \<le> - 1 \<longrightarrow>
      sub_getitem h v (KInt j) =
        Inr (Item (slot (objs h a) (sub_names v ! nat (int (sub_n_fields v) + j)))) \<and>
      sub_getitem h v (KInt j) = sub_getitem h v (KInt (int (sub_n_fields v) + j)) \<and>
      sub_setitem h v (KInt j) x =
        Inr (put h a ((objs h a)\<lparr>attrs :=
          (attrs (objs h a))(sub_names v ! nat (int (sub_n_fields v) + j) \<mapsto> x)\<rparr>)) \<and>
      sub_setitem h v (KInt j) x = sub_setitem h v (KInt (int (sub_n_fields v) + j)) x)"
proof (intro conjI impI)
  assume A: "well_formed c \<and> - int (n_fields c) \<le> k \<and> k \<le> - 1"
  then have wf: "well_formed c" and len: "n_fields c = length (field_names c)"
    by (simp_all add: well_formed_def)
  define p where "p = nat (int (n_fields c) + k)"
  have p: "p < length (field_names c)" "int (n_fields c) + k = int p"
    using A len unfolding p_def by linarith+
  have neg: "py_index (field_names c) k = Inr (field_names c ! p)"
    using A len py_index_neg [of "field_names c" k] by (simp add: p_def)
  have pos: "py_index (field_names c) (int p) = Inr (field_names c ! p)"
    using p(1) by (rule py_index_nat)
  have mem: "field_names c ! p \<in> set (field_names c)"
    using p(1) by simp
  show "getitem c (KInt k) = Inr (Item (slot c (field_names c ! nat (int (n_fields c) + k))))"
    using neg mem wf by (simp add: getitem_by_idx_def getitem_by_name_ok p_def)
  show "getitem c (KInt k) = getitem c (KInt (int (n_fields c) + k))"
    using neg pos p(2) by (simp add: getitem_by_idx_def)
  show "setitem c (KInt k) x =
        Inr (c\<lparr>attrs := (attrs c)(field_names c ! nat (int (n_fields c) + k) \<mapsto> x)\<rparr>)"
    using neg mem wf by (simp add: setitem_by_idx_def setitem_by_name_ok p_def)
  show "setitem c (KInt k) x = setitem c (KInt (int (n_fields c) + k)) x"
    using neg pos p(2) by (simp add: setitem_by_idx_def)
next
  assume B: "well_formed (objs h a) \<and> extract_subset h a sl = Inr v \<and>
    - int (sub_n_fields v) \<le> j \<and> j \<le> - 1"
  then have wf: "well_formed (objs h a)" and ex: "extract_subset h a sl = Inr v"
    by simp_all
  note view = extract_subset_view [OF ex]
  define p where "p = nat (int (sub_n_fields v) + j)"
  have p: "p < length (sub_names v)" "int (sub_n_fields v) + j = int p"
    using B view(3) unfolding p_def by linarith+
  have neg: "py_index (sub_names v) j = Inr (sub_names v ! p)"
    using B view(3) py_index_neg [of "sub_names v" j] by (simp add: p_def)
  have pos: "py_index (sub_names v) (int p) = Inr (sub_names v ! p)"
    using p(1) by (rule py_index_nat)
  have mem: "sub_names v ! p \<in> set (field_names (objs h a))"
    using p(1) view(2) by (meson nth_mem subsetD)
  show "sub_getitem h v (KInt j) =
        Inr (Item (slot (objs h a) (sub_names v ! nat (int (sub_n_fields v) + j))))"
    using neg mem wf view(1) by (simp add: sub_getitem_by_idx_def getitem_by_name_ok p_def)
  show "sub_getitem h v (KInt j) = sub_getitem h v (KInt (int (sub_n_fields v) + j))"
    using neg pos p(2) by (simp add: sub_getitem_by_idx_def)
  show "sub_setitem h v (KInt j) x =
        Inr (put h a ((objs h a)\<lparr>attrs :=
          (attrs (objs h a))(sub_names v ! nat (int (sub_n_fields v) + j) \<mapsto> x)\<rparr>))"
    using neg mem wf view(1) by (simp add: sub_setitem_by_idx_def setitem_by_name_ok p_def)
  show "sub_setitem h v (KInt j) x = sub_setitem h v (KInt (int (sub_n_fields v) + j)) x"
    using neg pos p(2) by (simp add: sub_setitem_by_idx_def)
qed

theorem negative_index_counts_from_end_witness:
  "(well_formed pg_example \<and> - int (n_fields pg_example) \<le> - 21 \<and> (- 21 :: int) \<le> - 1) \<and>
   getitem pg_example (KInt (- 21)) = Inr (Item (Obj 10)) \<and>
   getitem pg_example (KInt (- 21)) = getitem pg_example (KInt 0) \<and>
   setitem pg_example (KInt (- 21)) (Obj 19) = setitem pg_example (KInt 0) (Obj 19) \<and>
   (well_formed (objs pg_heap 0) \<and>
    extract_subset pg_heap 0 (Slice (Some 1) (Some 9) None) = Inr pg_moments \<and>
    - int (sub_n_fields pg_moments) \<le> - 8 \<and> (- 8 :: int) \<le> - 1) \<and>
   sub_getitem pg_heap pg_moments (KInt (- 8)) = Inr (Item (Obj 11)) \<and>
   sub_getitem pg_heap pg_moments (KInt (- 8)) = sub_getitem pg_heap pg_moments (KInt 0) \<and>
   sub_setitem pg_heap pg_moments (KInt (- 8)) (Obj 19)
     = sub_setitem pg_heap pg_moments (KInt 0) (Obj 19)"
proof -
  have A: "well_formed pg_example \<and> - int (n_fields pg_example) \<le> - 21 \<and> (- 21 :: int) \<le> - 1"
    by (simp add: pg_example_well_formed pg_example_fields(2))
  have B: "well_formed (objs pg_heap 0) \<and>
    extract_subset pg_heap 0 (Slice (Some 1) (Some 9) None) = Inr pg_moments \<and>
    - int (sub_n_fields pg_moments) \<le> - 8 \<and> (- 8 :: int) \<le> - 1"
    using pg_moments_eq(1)
    by (simp add: pg_heap_eq pg_example_well_formed pg_moments_eq(3) subset_moments_def)
  show ?thesis
    using A B negative_index_counts_from_end
      [where c = pg_example and k = "- 21" and x = "Obj 19" and h = pg_heap and a = 0
         and sl = "Slice (Some 1) (Some 9) None" and v = pg_moments and j = "- 8"]
    by (auto simp add: pg_example_fields(1,2) pg_field_names_def pg_slots pg_heap_eq
        pg_moments_eq(2,3))
qed

section \<open>Aliasing between a view and its base\<close>

lemma getitem_after_write:
  assumes "well_formed c" "nm \<in> set (field_names c)"
  shows "getitem_by_name (c\<lparr>attrs := (attrs c)(nm \<mapsto> x)\<rparr>) nm = Inr x"
  using assms by (simp add: getitem_by_name_def getattr_def)

text \<open>
  Claim C1. Let \<open>v\<close> be the view extracted from the collection at address \<open>a\<close> over a
  slice and \<open>n\<close> one of the view's names. A write \<^verbatim>\<open>v[n] = x\<close>, or \<^verbatim>\<open>v[i] = x\<close> with \<open>i\<close> a
  position of \<open>n\<close> in the view, has the very effect of \<^verbatim>\<open>c[n] = x\<close> on the store, and \<^verbatim>\<open>c[n]\<close>
  then reads \<open>x\<close>; after \<^verbatim>\<open>c[n] = x\<close> the view reads \<open>x\<close> under \<open>n\<close> and under \<open>i\<close>; and a
  read through the view is the read on the base.
\<close>

theorem view_aliases_base:
  assumes "well_formed (objs h a)"
    and "extract_subset h a sl = Inr v"
    and "n \<in> set (sub_names v)"
  shows
    "sub_setitem h v (KStr n) x = heap_setitem h a (KStr n) x \<and>
     sub_setitem h v (KStr n) x
       = Inr (put h a ((objs h a)\<lparr>attrs := (attrs (objs h a))(n \<mapsto> x)\<rparr>)) \<and>
     getitem (objs (put h a ((objs h a)\<lparr>attrs := (attrs (objs h a))(n \<mapsto> x)\<rparr>)) a) (KStr n)
       = Inr (Item x) \<and>
     sub_getitem (put h a ((objs h a)\<lparr>attrs := (attrs (objs h a))(n \<mapsto> x)\<rparr>)) v (KStr n)
       = Inr (Item x) \<and>
     sub_getitem h v (KStr n) = getitem (objs h a) (KStr n) \<and>
     (\<forall>i < length (sub_names v). sub_names v ! i = n \<longrightarrow>
        sub_setitem h v (KInt (int i)) x = heap_setitem h a (KStr n) x \<and>
        sub_getitem (put h a ((objs h a)\<lparr>attrs := (attrs (objs h a))(n \<mapsto> x)\<rparr>)) v
          (KInt (int i)) = Inr (Item x) \<and>
        sub_getitem h v (KInt (int i)) = getitem (objs h a) (KStr n))"
proof -
  note view = extract_subset_view [OF assms(2)]
  define c where "c = objs h a"
  define h' where "h' = put h a (c\<lparr>attrs := (attrs c)(n \<mapsto> x)\<rparr>)"
  have mem: "n \<in> set (field_names c)"
    using view(2) assms(3) by (auto simp: c_def)
  have wf: "well_formed c" using assms(1) by (simp add: c_def)
  have base_set: "heap_setitem h a (KStr n) x = Inr h'"
    using wf mem by (simp add: heap_setitem_def setitem_by_name_ok c_def [symmetric] h'_def)
  have view_set: "sub_setitem h v (KStr n) x = Inr h'"
    using wf mem assms(3) view(1)
    by (simp add: sub_setitem_by_name_def setitem_by_name_ok c_def [symmetric] h'_def)
  have obj': "objs h' a = c\<lparr>attrs := (attrs c)(n \<mapsto> x)\<rparr>"
    by (simp add: h'_def)
  have base_get: "getitem (objs h' a) (KStr n) = Inr (Item x)"
    using getitem_after_write [OF wf mem] by (simp add: obj')
  have view_get: "sub_getitem h' v (KStr n) = Inr (Item x)"
    using getitem_after_write [OF wf mem] assms(3) view(1)
    by (simp add: sub_getitem_by_name_def obj')
  have read: "sub_getitem h v (KStr n) = getitem (objs h a) (KStr n)"
    using assms(3) view(1) by (simp add: sub_getitem_by_name_def)
  have by_idx: "sub_setitem h v (KInt (int i)) x = Inr h' \<and>
        sub_getitem h' v (KInt (int i)) = Inr (Item x) \<and>
        sub_getitem h v (KInt (int i)) = getitem (objs h a) (KStr n)"
    if "i < length (sub_names v)" "sub_names v ! i = n" for i
  proof -
    have idx: "py_index (sub_names v) (int i) = Inr n"
      using that py_index_nat [of i "sub_names v"] by simp
    show ?thesis
      using idx wf mem view(1) getitem_after_write [OF wf mem]
      by (simp add: sub_setitem_by_idx_def sub_getitem_by_idx_def setitem_by_name_ok
          c_def [symmetric] h'_def)
  qed
  show ?thesis
    using base_set view_set base_get view_get read by_idx
    by (simp add: h'_def c_def)
qed

theorem view_aliases_base_witness:
  "(well_formed (objs pg_heap 0) \<and>
    extract_subset pg_heap 0 (Slice (Some 1) (Some 9) None) = Inr pg_moments \<and>
    ''Mss'' \<in> set (sub_names pg_moments)) \<and>
   sub_setitem pg_heap pg_moments (KStr ''Mss'') (Obj 19)
     = heap_setitem pg_heap 0 (KStr ''Mss'') (Obj 19) \<and>
   sub_setitem pg_heap pg_moments (KInt 0) (Obj 19)
     = heap_setitem pg_heap 0 (KStr ''Mss'') (Obj 19) \<and>
   getitem (objs (projr (sub_setitem pg_heap pg_moments (KInt 0) (Obj 19))) 0) (KStr ''Mss'')
     = Inr (Item (Obj 19)) \<and>
   sub_getitem (projr (heap_setitem pg_heap 0 (KStr ''Mss'') (Obj 19))) pg_moments (KInt 0)
     = Inr (Item (Obj 19)) \<and>
   sub_getitem pg_heap pg_moments (KInt 0) = Inr (Item (Obj 11))"
proof -
  have A: "well_formed (objs pg_heap 0)"
    by (simp add: pg_heap_eq pg_example_well_formed)
  have B: "extract_subset pg_heap 0 (Slice (Some 1) (Some 9) None) = Inr pg_moments"
    using pg_moments_eq(1) by (simp add: subset_moments_def)
  have C: "''Mss'' \<in> set (sub_names pg_moments)"
    by (simp add: pg_moments_eq(2))
  have D: "getitem (objs pg_heap 0) (KStr ''Mss'') = Inr (Item (Obj 11))"
    by (simp add: pg_heap_eq getitem_by_name_ok pg_example_well_formed pg_example_fields(1)
        pg_field_names_def pg_slots)
  note T = view_aliases_base [OF A B C, of "Obj 19"]
  have E: "sub_setitem pg_heap pg_moments (KInt 0) (Obj 19)
     = heap_setitem pg_heap 0 (KStr ''Mss'') (Obj 19)"
    "sub_getitem (put pg_heap 0 ((objs pg_heap 0)\<lparr>attrs :=
        (attrs (objs pg_heap 0))(''Mss'' \<mapsto> Obj 19)\<rparr>)) pg_moments (KInt 0)
      = Inr (Item (Obj 19))"
    "sub_getitem pg_heap pg_moments (KInt 0) = getitem (objs pg_heap 0) (KStr ''Mss'')"
    using T [THEN conjunct2, THEN conjunct2, THEN conjunct2, THEN conjunct2, THEN conjunct2,
        THEN spec, of 0]
    by (simp_all add: pg_moments_eq(2))
  note T1 = T [THEN conjunct1]
  note T2 = T [THEN conjunct2, THEN conjunct1]
  note T3 = T [THEN conjunct2, THEN conjunct2, THEN conjunct1]
  have F: "heap_setitem pg_heap 0 (KStr ''Mss'') (Obj 19)
      = Inr (put pg_heap 0 ((objs pg_heap 0)\<lparr>attrs :=
        (attrs (objs pg_heap 0))(''Mss'' \<mapsto> Obj 19)\<rparr>))"
    using T2 by (simp only: T1)
  show ?thesis
    using A B C T1 T3 E(2) by (simp only: E(1) F E(3) D sum.sel simp_thms)
qed

section \<open>Keys of an unsupported kind\<close>

text \<open>
  Claim C4 (not met by the code). For a key that is neither an integer nor a string,
  \<^verbatim>\<open>__setitem__\<close> of both classes ends in \<^verbatim>\<open>return TypeError\<close>: the assignment
  \<^verbatim>\<open>c[1.5] = x\<close> completes without an exception and leaves the store as it was, whereas
  \<^verbatim>\<open>__getitem__\<close> raises \<^verbatim>\<open>TypeError\<close> for the same key.
\<close>

theorem setitem_unsupported_key_is_silent:
  "setitem pg_example KOther (Obj 19) = Inr pg_example \<and>
   heap_setitem pg_heap 0 KOther (Obj 19) = Inr pg_heap \<and>
   sub_setitem pg_heap pg_moments KOther (Obj 19) = Inr pg_heap \<and>
   getitem pg_example KOther = Inl TypeError \<and>
   sub_getitem pg_heap pg_moments KOther = Inl TypeError"
  by (simp add: heap_setitem_def)

section \<open>Iteration with names\<close>

text \<open>
  Claim C2 (not met by the code). \<^verbatim>\<open>__next__\<close> increments \<^verbatim>\<open>n_iter\<close> before it looks the
  name up, so the name paired with a value is that of the following slot: the first step
  over \<^verbatim>\<open>CollectionPG(Psi=x0, Mss=x1, Bs_e=x2)\<close> yields \<open>(''Mss'', x0)\<close>, and the step that
  reaches the last slot raises \<^verbatim>\<open>IndexError\<close> (shown on a one-field collection). In the
  view the lookup goes to \<^verbatim>\<open>self._field_names\<close>, which a \<^verbatim>\<open>LabeledSubCollection\<close> does
  not have: the first step raises \<^verbatim>\<open>AttributeError\<close>.
\<close>

theorem iteration_with_names_is_shifted:
  "collection_next (iter (set_iter_name pg_example True))
     = Inr (Named ''Mss'' (Obj 10), (set_iter_name pg_example True)\<lparr>n_iter := 1\<rparr>) \<and>
   collection_next (iter (set_iter_name
       (projr (LabeledCollection_init (blank Cls_LabeledCollection) [''a''] [(''a'', Obj (10::nat))]))
       True)) = Inl IndexError \<and>
   sub_next pg_heap (sub_iter (set_sub_iter_name pg_moments True)) = Inl AttributeError \<and>
   sub_next pg_heap (sub_iter pg_moments)
     = Inr (Bare (Obj 11), pg_moments\<lparr>sub_n_iter := Some 1\<rparr>)"
proof -
  have one: "LabeledCollection_init (blank Cls_LabeledCollection) [''a''] [(''a'', Obj (10::nat))]
    = Inr ((blank Cls_LabeledCollection)\<lparr>field_names := [''a''],
              attrs := (\<lambda>n. if n \<in> set [''a'']
                 then Some (case map_of [(''a'', Obj (10::nat))] n of Some v \<Rightarrow> v | None \<Rightarrow> PyNone)
                 else attrs (blank Cls_LabeledCollection) n),
              n_fields := length [''a''], iter_name := False, iter_filter := False,
              n_iter := 0, is_locked := False\<rparr>)"
    by (rule LabeledCollection_init_ok) simp_all
  have a: "collection_next (iter (set_iter_name pg_example True))
     = Inr (Named ''Mss'' (Obj 10), (set_iter_name pg_example True)\<lparr>n_iter := 1\<rparr>)"
    by (subst collection_next.simps)
      (simp add: iter_def set_iter_name_def pg_example_fields(1-6) getitem_by_idx_def
        py_index_def pg_field_names_def getitem_by_name_def getattr_def pg_example_fields(7)
        Let_def)
  have b: "collection_next (iter (set_iter_name
       (projr (LabeledCollection_init (blank Cls_LabeledCollection) [''a''] [(''a'', Obj (10::nat))]))
       True)) = Inl IndexError"
    by (subst collection_next.simps)
      (simp add: one iter_def set_iter_name_def getitem_by_idx_def
        py_index_def getitem_by_name_def getattr_def Let_def)
  have c: "sub_next pg_heap (sub_iter (set_sub_iter_name pg_moments True)) = Inl AttributeError"
    by (subst sub_next.simps)
      (simp add: sub_iter_def set_sub_iter_name_def pg_moments_eq(2,3) sub_getitem_by_idx_def
        py_index_def pg_heap_eq getitem_by_name_ok pg_example_well_formed pg_moments_base
        pg_example_fields(1) pg_field_names_def Let_def)
  have d: "sub_next pg_heap (sub_iter pg_moments)
     = Inr (Bare (Obj 11), pg_moments\<lparr>sub_n_iter := Some 1\<rparr>)"
    by (subst sub_next.simps)
      (simp add: sub_iter_def pg_moments_eq(2,3) sub_getitem_by_idx_def
        py_index_def pg_heap_eq getitem_by_name_ok pg_example_well_formed pg_moments_base
        pg_example_fields(1) pg_field_names_def Let_def pg_slots)
  show ?thesis using a b c d by blast
qed

section \<open>Dictionaries built by a comprehension\<close>

lemma fold_update_distinct:
  "distinct (map fst d) \<Longrightarrow>
   distinct (map fst (fold (\<lambda>n. AList.update (f n) (g n)) ns d))"
  by (induction ns arbitrary: d) (simp_all add: distinct_update)

lemma fold_update_keys:
  "fst ` set (fold (\<lambda>n. AList.update (f n) (g n)) ns d) = fst ` set d \<union> f ` set ns"
  by (induction ns arbitrary: d) (auto simp: dom_update)

lemma fold_update_lookup:
  "map_of (fold (\<lambda>n. AList.update (f n) (g n)) ns d) k =
     (if k \<in> f ` set ns then Some (g (last (filter (\<lambda>n. f n = k) ns))) else map_of d k)"
proof (induction ns arbitrary: d)
  case Nil
  then show ?case by simp
next
  case (Cons n ns)
  show ?case
  proof (cases "k \<in> f ` set ns")
    case True
    then have "filter (\<lambda>n. f n = k) ns \<noteq> []"
      by (auto simp: filter_empty_conv)
    then show ?thesis using True Cons.IH by simp
  next
    case False
    then have "filter (\<lambda>n. f n = k) ns = []"
      by (auto simp: filter_empty_conv)
    then show ?thesis using False Cons.IH by (auto simp: update_conv')
  qed
qed

lemma fold_update_length:
  "length (fold (\<lambda>n. AList.update (f n) (g n)) ns []) = card (f ` set ns)"
proof -
  let ?d = "fold (\<lambda>n. AList.update (f n) (g n)) ns []"
  have "distinct (map fst ?d)" by (rule fold_update_distinct) simp
  from distinct_card [OF this] have "card (fst ` set ?d) = length ?d" by simp
  moreover have "fst ` set ?d = f ` set ns"
    using fold_update_keys [of f g ns "[]"] by simp
  ultimately show ?thesis by simp
qed

lemma getitem_by_idx_ok:
  "well_formed c \<Longrightarrow> i < n_fields c \<Longrightarrow>
   getitem_by_idx c (int i) = Inr (slot c (field_names c ! i))"
  by (simp add: getitem_by_idx_def py_index_nat getitem_by_name_ok well_formed_def)

lemma getitem_by_idx_out:
  "well_formed c \<Longrightarrow> n_fields c \<le> i \<Longrightarrow> getitem_by_idx c (int i) = Inl IndexError"
  by (simp add: getitem_by_idx_def py_index_def well_formed_def)

lemma map_by_name_fold:
  assumes "well_formed a" "well_formed b"
    and "set ns \<subseteq> set (field_names a)" "set ns \<subseteq> set (field_names b)"
  shows "map_by_name a b ns d = Inr (fold (\<lambda>n. AList.update (slot a n) (slot b n)) ns d)"
  using assms(3,4)
  by (induction ns arbitrary: d) (simp_all add: getitem_by_name_ok assms(1,2))

lemma map_by_position_fold:
  assumes "well_formed a" "well_formed b"
    and "\<forall>i \<in> set js. i < n_fields a \<and> i < n_fields b"
  shows "map_by_position a b js d =
     Inr (fold (\<lambda>i. AList.update (slot a (field_names a ! i)) (slot b (field_names b ! i))) js d)"
  using assms(3)
  by (induction js arbitrary: d) (simp_all add: getitem_by_idx_ok assms(1,2))

lemma map_by_position_append:
  "map_by_position a b (xs @ ys) d =
     bind_err (map_by_position a b xs d) (map_by_position a b ys)"
  by (induction xs arbitrary: d) (simp_all add: bind_err_def split: sum.splits)

section \<open>Mapping by name\<close>

text \<open>
  Claim C5. \<^verbatim>\<open>map_collection\<close> fails its assertion (the spec's SchemaMismatch) whenever
  the two name lists differ. When they are equal, the result is the dictionary obtained by
  storing, for each name in schema order, the value of \<open>b\<close> under the value of \<open>a\<close>: its
  keys are the values stored in \<open>a\<close>, one entry for each distinct value, and a value held
  by several names of \<open>a\<close> is mapped to the value \<open>b\<close> has at the last such name.
\<close>

theorem map_collection_by_name:
  "(field_names a \<noteq> field_names b \<longrightarrow> map_collection a b = Inl AssertionError) \<and>
   (well_formed a \<and> well_formed b \<and> field_names a = field_names b \<longrightarrow>
      (\<exists>d. map_collection a b = Inr d \<and>
           d = fold (\<lambda>n. AList.update (slot a n) (slot b n)) (field_names a) [] \<and>
           distinct (map fst d) \<and>
           fst ` set d = slot a ` set (field_names a) \<and>
           length d = card (slot a ` set (field_names a)) \<and>
           (\<forall>n \<in> set (field_names a).
              map_of d (slot a n)
                = Some (slot b (last (filter (\<lambda>m. slot a m = slot a n) (field_names a)))))))"
proof (intro conjI impI)
  assume "field_names a \<noteq> field_names b"
  then show "map_collection a b = Inl AssertionError"
    by (simp add: map_collection_def)
next
  assume A: "well_formed a \<and> well_formed b \<and> field_names a = field_names b"
  let ?d = "fold (\<lambda>n. AList.update (slot a n) (slot b n)) (field_names a) []"
  have run: "map_collection a b = Inr ?d"
    using A map_by_name_fold [of a b "field_names a" "[]"]
    by (simp add: map_collection_def)
  have "distinct (map fst ?d)"
    by (rule fold_update_distinct) simp
  moreover have "fst ` set ?d = slot a ` set (field_names a)"
    using fold_update_keys [of "slot a" "slot b" "field_names a" "[]"] by simp
  moreover have "length ?d = card (slot a ` set (field_names a))"
    by (rule fold_update_length)
  moreover have "\<forall>n \<in> set (field_names a).
      map_of ?d (slot a n)
        = Some (slot b (last (filter (\<lambda>m. slot a m = slot a n) (field_names a))))"
    by (simp add: fold_update_lookup)
  ultimately show "\<exists>d. map_collection a b = Inr d \<and>
           d = ?d \<and> distinct (map fst d) \<and>
           fst ` set d = slot a ` set (field_names a) \<and>
           length d = card (slot a ` set (field_names a)) \<and>
           (\<forall>n \<in> set (field_names a).
              map_of d (slot a n)
                = Some (slot b (last (filter (\<lambda>m. slot a m = slot a n) (field_names a)))))"
    using run by blast
qed

theorem map_collection_by_name_witness:
  "field_names pg_example \<noteq> field_names short_example \<and>
   map_collection pg_example short_example = Inl AssertionError \<and>
   (well_formed pg_example \<and> well_formed pg_target \<and>
    field_names pg_example = field_names pg_target) \<and>
   map_collection pg_example pg_target
     = Inr [(Obj 10, Obj 20), (Obj 11, Obj 21), (PyNone, Obj 23), (Obj 12, Obj 22)] \<and>
   ''Br_b'' \<in> set (field_names pg_example) \<and>
   slot pg_example ''Br_b'' = PyNone \<and>
   last (filter (\<lambda>m. slot pg_example m = PyNone) (field_names pg_example)) = ''Bz_m''"
proof -
  have A: "field_names pg_example \<noteq> field_names short_example"
    by (simp add: pg_example_fields(1) short_example_well_formed(3) pg_field_names_def)
  have B: "well_formed pg_example \<and> well_formed pg_target \<and>
    field_names pg_example = field_names pg_target"
    by (simp add: pg_example_well_formed pg_target_well_formed pg_example_fields(1))
  have C: "map_collection pg_example pg_target
     = Inr [(Obj 10, Obj 20), (Obj 11, Obj 21), (PyNone, Obj 23), (Obj 12, Obj 22)]"
    by code_simp
  have D: "''Br_b'' \<in> set (field_names pg_example)"
    by (simp add: pg_example_fields(1) pg_field_names_def)
  have E: "slot pg_example ''Br_b'' = PyNone"
    by (simp add: slot_def pg_example_fields(7) pg_field_names_def)
  have F: "last (filter (\<lambda>m. slot pg_example m = PyNone) (field_names pg_example)) = ''Bz_m''"
    by code_simp
  show ?thesis
    using A B C D E F
      map_collection_by_name [of pg_example short_example]
      map_collection_by_name [of pg_example pg_target]
    by blast
qed

section \<open>Mapping by position\<close>

text \<open>
  Claim C3 (as stated, refuted). \<^verbatim>\<open>map_PG_fields\<close> walks \<^verbatim>\<open>range(maps_from.n_fields)\<close> and
  indexes both collections: with a shorter target the read \<^verbatim>\<open>maps_to[i_field]\<close> raises
  \<^verbatim>\<open>IndexError\<close>; and values of the source that are equal share one dictionary entry, so
  two 21-field collections can give 4 entries.
\<close>

theorem map_PG_fields_counterexample:
  "map_PG_fields pg_example short_example = Inl IndexError \<and>
   map_PG_fields pg_example pg_target
     = Inr [(Obj 10, Obj 20), (Obj 11, Obj 21), (PyNone, Obj 23), (Obj 12, Obj 22)] \<and>
   min (n_fields pg_example) (n_fields pg_target) = 21"
proof -
  have "map_PG_fields pg_example short_example = Inl IndexError"
    by code_simp
  moreover have "map_PG_fields pg_example pg_target
     = Inr [(Obj 10, Obj 20), (Obj 11, Obj 21), (PyNone, Obj 23), (Obj 12, Obj 22)]"
    by code_simp
  ultimately show ?thesis
    by (simp add: pg_example_fields(2) pg_target_well_formed(3))
qed

text \<open>
  Claim C3, amended. Whatever the names of the two collections, when the target has at
  least as many fields as the source \<^verbatim>\<open>map_PG_fields\<close> does not raise; it returns the
  dictionary that maps the value at each position of the source to the value at the same
  position of the target, one entry for each distinct value of the source (so at most
  \<open>min (len a) (len b)\<close> entries, and exactly that many when the source values are pairwise
  different), the last position winning among equal source values. When the target has
  fewer fields than the source it raises \<^verbatim>\<open>IndexError\<close>.
\<close>

theorem map_PG_fields_by_position:
  "(well_formed a \<and> well_formed b \<and> n_fields a \<le> n_fields b \<longrightarrow>
      (\<exists>d. map_PG_fields a b = Inr d \<and>
           d = fold (\<lambda>i. AList.update (value_at a i) (value_at b i)) [0..<n_fields a] [] \<and>
           distinct (map fst d) \<and>
           fst ` set d = value_at a ` {..<n_fields a} \<and>
           length d = card (value_at a ` {..<n_fields a}) \<and>
           length d \<le> min (n_fields a) (n_fields b) \<and>
           (inj_on (value_at a) {..<n_fields a} \<longrightarrow>
              length d = min (n_fields a) (n_fields b)) \<and>
           (\<forall>i < n_fields a.
              map_of d (value_at a i)
                = Some (value_at b
                    (last (filter (\<lambda>j. value_at a j = value_at a i) [0..<n_fields a])))))) \<and>
   (well_formed a \<and> well_formed b \<and> n_fields b < n_fields a \<longrightarrow>
      map_PG_fields a b = Inl IndexError)"
proof (intro conjI impI)
  assume A: "well_formed a \<and> well_formed b \<and> n_fields a \<le> n_fields b"
  let ?n = "n_fields a"
  let ?d = "fold (\<lambda>i. AList.update (value_at a i) (value_at b i)) [0..<?n] []"
  have run: "map_PG_fields a b = Inr ?d"
    using A map_by_position_fold [of a b "[0..<?n]" "[]"]
    by (simp add: map_PG_fields_def value_at_def)
  have dist: "distinct (map fst ?d)"
    by (rule fold_update_distinct) simp
  have keys: "fst ` set ?d = value_at a ` {..<?n}"
    using fold_update_keys [of "value_at a" "value_at b" "[0..<?n]" "[]"]
    by (simp add: lessThan_atLeast0)
  have len: "length ?d = card (value_at a ` {..<?n})"
    using fold_update_length [of "value_at a" "value_at b" "[0..<?n]"]
    by (simp add: lessThan_atLeast0)
  have "card (value_at a ` {..<?n}) \<le> card {..<?n}"
    by (rule card_image_le) simp
  then have bound: "length ?d \<le> min ?n (n_fields b)"
    using A len by simp
  have exact: "inj_on (value_at a) {..<?n} \<longrightarrow> length ?d = min ?n (n_fields b)"
    using A len by (auto simp: card_image)
  have look: "\<forall>i < ?n. map_of ?d (value_at a i)
      = Some (value_at b (last (filter (\<lambda>j. value_at a j = value_at a i) [0..<?n])))"
    by (simp add: fold_update_lookup)
  show "\<exists>d. map_PG_fields a b = Inr d \<and>
           d = ?d \<and> distinct (map fst d) \<and>
           fst ` set d = value_at a ` {..<?n} \<and>
           length d = card (value_at a ` {..<?n}) \<and>
           length d \<le> min ?n (n_fields b) \<and>
           (inj_on (value_at a) {..<?n} \<longrightarrow> length d = min ?n (n_fields b)) \<and>
           (\<forall>i < ?n.
              map_of d (value_at a i)
                = Some (value_at b
                    (last (filter (\<lambda>j. value_at a j = value_at a i) [0..<?n]))))"
    using run dist keys len bound exact look by blast
next
  assume B: "well_formed a \<and> well_formed b \<and> n_fields b < n_fields a"
  let ?m = "n_fields b"
  have split: "[0..<n_fields a] = [0..<?m] @ ?m # [Suc ?m..<n_fields a]"
    using B by (metis less_imp_le_nat upt_add_eq_append upt_conv_Cons le0 add_0 le_add_diff_inverse)
  have first: "\<exists>d. map_by_position a b [0..<?m] [] = Inr d"
    using B map_by_position_fold [of a b "[0..<?m]" "[]"] by simp
  have stop: "map_by_position a b (?m # [Suc ?m..<n_fields a]) d = Inl IndexError" for d
    using B by (simp add: getitem_by_idx_ok getitem_by_idx_out)
  show "map_PG_fields a b = Inl IndexError"
    using first stop by (auto simp: map_PG_fields_def split map_by_position_append)
qed

theorem map_PG_fields_by_position_witness:
  "(well_formed short_example \<and> well_formed pg_example \<and>
    n_fields short_example \<le> n_fields pg_example) \<and>
   map_PG_fields short_example pg_example = Inr [(Obj 30, Obj 10)] \<and>
   (well_formed pg_example \<and> well_formed short_example \<and>
    n_fields short_example < n_fields pg_example) \<and>
   map_PG_fields pg_example short_example = Inl IndexError"
proof -
  have A: "well_formed short_example \<and> well_formed pg_example \<and>
    n_fields short_example \<le> n_fields pg_example"
    by (simp add: pg_example_well_formed short_example_well_formed pg_example_fields(2))
  have B: "well_formed pg_example \<and> well_formed short_example \<and>
    n_fields short_example < n_fields pg_example"
    by (simp add: pg_example_well_formed short_example_well_formed pg_example_fields(2))
  have C: "fold (\<lambda>i. AList.update (value_at short_example i) (value_at pg_example i))
      [0..<n_fields short_example] [] = [(Obj 30, Obj 10)]"
    by code_simp
  from A map_PG_fields_by_position [of short_example pg_example]
  have "map_PG_fields short_example pg_example = Inr [(Obj 30, Obj 10)]"
    by (simp only: C) blast
  moreover from B map_PG_fields_by_position [of pg_example short_example]
  have "map_PG_fields pg_example short_example = Inl IndexError"
    by blast
  ultimately show ?thesis using A B by blast
qed

section \<open>apply\<close>

lemma setitem_by_idx_ok:
  "well_formed c \<Longrightarrow> i < n_fields c \<Longrightarrow>
   setitem_by_idx c (int i) v = Inr (c\<lparr>attrs := (attrs c)(field_names c ! i \<mapsto> v)\<rparr>)"
  by (simp add: setitem_by_idx_def py_index_nat setitem_by_name_ok well_formed_def)

lemma apply_loop_result:
  assumes "well_formed (objs h s)" "well_formed (objs h t)"
    and "field_names (objs h t) = field_names (objs h s)"
    and "\<forall>i \<in> set js. i < n_fields (objs h s)"
    and "s \<noteq> t \<or> (distinct js \<and> distinct (field_names (objs h s)))"
  shows "apply_loop h s t (Fun1 f) False js =
     Inr (put h t ((objs h t)\<lparr>attrs :=
        (\<lambda>nm. if nm \<in> (\<lambda>i. field_names (objs h s) ! i) ` set js
              then Some (f (slot (objs h s) nm))
              else attrs (objs h t) nm)\<rparr>))"
  using assms
proof (induction js arbitrary: h)
  case Nil
  show ?case by (simp add: put_def)
next
  case (Cons i js)
  define names where "names = field_names (objs h s)"
  define cs where "cs = objs h s"
  define ct where "ct = objs h t"
  define y where "y = f (slot cs (names ! i))"
  define h1 where "h1 = put h t (ct\<lparr>attrs := (attrs ct)(names ! i \<mapsto> y)\<rparr>)"
  have i: "i < n_fields cs" "i < length names"
    using Cons.prems(1,4) by (simp_all add: cs_def names_def well_formed_def)
  have nt: "n_fields ct = n_fields cs"
    using Cons.prems(1,2,3) by (simp add: cs_def ct_def well_formed_def)
  have rd: "getitem_by_idx (objs h s) (int i) = Inr (slot cs (names ! i))"
    using Cons.prems(1) i(1) by (simp add: getitem_by_idx_ok cs_def names_def)
  have wr: "heap_setitem h t (KInt (int i)) y = Inr h1"
    using Cons.prems(2,3) i(1) nt
    by (simp add: heap_setitem_def setitem_by_idx_ok ct_def [symmetric] h1_def names_def)
  have step: "apply_loop h s t (Fun1 f) False (i # js) = apply_loop h1 s t (Fun1 f) False js"
    using rd wr by (simp add: y_def)
  have t1: "objs h1 t = ct\<lparr>attrs := (attrs ct)(names ! i \<mapsto> y)\<rparr>"
    by (simp add: h1_def)
  have s1_names: "field_names (objs h1 s) = names"
    by (cases "s = t") (simp_all add: h1_def names_def ct_def)
  have s1_n: "n_fields (objs h1 s) = n_fields cs"
    by (cases "s = t") (simp_all add: h1_def cs_def ct_def)
  have wf_t1: "well_formed (objs h1 t)"
    using Cons.prems(2) by (simp add: t1 ct_def well_formed_update)
  have wf_s1: "well_formed (objs h1 s)"
    using Cons.prems(1) wf_t1 by (cases "s = t") (simp_all add: h1_def)
  have same: "slot (objs h1 s) nm = slot cs nm" if "nm \<in> (\<lambda>j. names ! j) ` set js" for nm
  proof (cases "s = t")
    case False
    then show ?thesis by (simp add: h1_def cs_def)
  next
    case True
    with Cons.prems(5) have d: "distinct (i # js)" "distinct names"
      by (simp_all add: names_def)
    from that obtain j where j: "j \<in> set js" "nm = names ! j" by auto
    have "j < length names"
      using Cons.prems(1,4) j(1) by (simp add: names_def well_formed_def)
    with d i(2) j have "nm \<noteq> names ! i"
      by (auto simp: nth_eq_iff_index_eq)
    moreover have "objs h1 s = cs\<lparr>attrs := (attrs cs)(names ! i \<mapsto> y)\<rparr>"
      using t1 True by (simp add: cs_def ct_def)
    ultimately show ?thesis
      by (simp add: slot_update)
  qed
  have IH: "apply_loop h1 s t (Fun1 f) False js =
     Inr (put h1 t ((objs h1 t)\<lparr>attrs :=
        (\<lambda>nm. if nm \<in> (\<lambda>i. field_names (objs h1 s) ! i) ` set js
              then Some (f (slot (objs h1 s) nm))
              else attrs (objs h1 t) nm)\<rparr>))"
  proof (rule Cons.IH)
    show "well_formed (objs h1 s)" by (rule wf_s1)
    show "well_formed (objs h1 t)" by (rule wf_t1)
    show "field_names (objs h1 t) = field_names (objs h1 s)"
      using Cons.prems(3) by (simp add: t1 s1_names ct_def names_def)
    show "\<forall>i \<in> set js. i < n_fields (objs h1 s)"
      using Cons.prems(4) by (simp add: s1_n cs_def)
    show "s \<noteq> t \<or> (distinct js \<and> distinct (field_names (objs h1 s)))"
      using Cons.prems(5) by (auto simp: s1_names names_def)
  qed
  have fn: "(\<lambda>nm. if nm \<in> (\<lambda>i. names ! i) ` set js
              then Some (f (slot (objs h1 s) nm))
              else attrs (objs h1 t) nm)
        = (\<lambda>nm. if nm \<in> (\<lambda>i. names ! i) ` set (i # js)
              then Some (f (slot cs nm))
              else attrs ct nm)"
  proof (rule ext)
    fix nm
    show "(if nm \<in> (\<lambda>i. names ! i) ` set js
              then Some (f (slot (objs h1 s) nm))
              else attrs (objs h1 t) nm)
        = (if nm \<in> (\<lambda>i. names ! i) ` set (i # js)
              then Some (f (slot cs nm))
              else attrs ct nm)"
    proof (cases "nm \<in> (\<lambda>i. names ! i) ` set js")
      case True
      then show ?thesis using same [OF True] by simp
    next
      case False
      then show ?thesis by (auto simp: t1 y_def)
    qed
  qed
  have "apply_loop h1 s t (Fun1 f) False js =
     Inr (put h1 t ((objs h1 t)\<lparr>attrs :=
        (\<lambda>nm. if nm \<in> (\<lambda>i. names ! i) ` set (i # js)
              then Some (f (slot cs nm))
              else attrs ct nm)\<rparr>))"
    using IH by (simp only: s1_names fn)
  also have "\<dots> = Inr (put h t (ct\<lparr>attrs :=
        (\<lambda>nm. if nm \<in> (\<lambda>i. names ! i) ` set (i # js)
              then Some (f (slot cs nm))
              else attrs ct nm)\<rparr>))"
    by (simp add: t1) (simp add: h1_def)
  finally show ?case
    using step by (simp only: names_def cs_def ct_def)
qed

lemma new_LabeledCollection_ok:
  assumes "fst ` set flds \<subseteq> set names" and "\<forall>nm \<in> set names. \<not> own_attribute nm"
    and "''self'' \<notin> fst ` set flds" and "''names'' \<notin> fst ` set flds"
  obtains c where "new_LabeledCollection h names flds = Inr (alloc h c)"
    and "well_formed c" and "klass c = Cls_LabeledCollection" and "field_names c = names"
    and "\<not> is_locked c"
    and "\<And>n. attrs c n = (if n \<in> set names
           then Some (case map_of flds n of Some v \<Rightarrow> v | None \<Rightarrow> PyNone) else None)"
proof -
  obtain c where c: "LabeledCollection_init (blank Cls_LabeledCollection) names flds = Inr c"
    using LabeledCollection_init_ok [OF assms(1,3,4)] by blast
  have "attrs c n = (if n \<in> set names
           then Some (case map_of flds n of Some v \<Rightarrow> v | None \<Rightarrow> PyNone) else None)" for n
    using c LabeledCollection_init_ok [OF assms(1,3,4), of "blank Cls_LabeledCollection"]
    by (auto simp: blank_def)
  moreover have "new_LabeledCollection h names flds = Inr (alloc h c)"
    by (simp add: new_LabeledCollection_def c)
  ultimately show thesis
    using that LabeledCollection_init_well_formed [OF c assms(2)] by blast
qed

lemma new_CollectionPG_ok:
  assumes "fst ` set flds \<subseteq> set pg_field_names"
  obtains c where "new_CollectionPG h flds = Inr (alloc h c)"
    and "well_formed c" and "klass c = Cls_CollectionPG" and "field_names c = pg_field_names"
    and "is_locked c"
    and "\<And>n. attrs c n = (if n \<in> set pg_field_names
           then Some (case map_of flds n of Some v \<Rightarrow> v | None \<Rightarrow> PyNone) else None)"
proof -
  obtain c where c: "CollectionPG_init (blank Cls_CollectionPG) flds = Inr c"
    using CollectionPG_init_ok [OF assms] by blast
  have "attrs c n = (if n \<in> set pg_field_names
           then Some (case map_of flds n of Some v \<Rightarrow> v | None \<Rightarrow> PyNone) else None)" for n
    using c CollectionPG_init_ok [OF assms, of "blank Cls_CollectionPG"]
    by (auto simp: blank_def)
  moreover have "new_CollectionPG h flds = Inr (alloc h c)"
    by (simp add: new_CollectionPG_def c)
  moreover have "well_formed c" "klass c = Cls_CollectionPG"
    using CollectionPG_init_well_formed [OF c] by simp_all
  moreover from this have "field_names c = pg_field_names" "is_locked c"
    by (simp_all add: well_formed_def)
  ultimately show thesis
    using that by blast
qed

lemma new_obj_ok:
  assumes "well_formed (objs h s)"
  obtains c where "new_obj h s = Inr (alloc h c)"
    and "well_formed c" and "klass c = klass (objs h s)"
    and "field_names c = field_names (objs h s)"
proof (cases "klass (objs h s)")
  case Cls_LabeledCollection
  have "fst ` set ([] :: (string \<times> 'a pyval) list) \<subseteq> set (field_names (objs h s))"
    by simp
  moreover have "\<forall>nm \<in> set (field_names (objs h s)). \<not> own_attribute nm"
    using assms by (simp add: well_formed_def)
  ultimately show ?thesis
    using new_LabeledCollection_ok [of "[]" "field_names (objs h s)" h] Cls_LabeledCollection that
    by (auto simp: new_obj_def)
next
  case Cls_CollectionPG
  have "fst ` set ([] :: (string \<times> 'a pyval) list) \<subseteq> set pg_field_names"
    by simp
  moreover have "field_names (objs h s) = pg_field_names"
    using assms Cls_CollectionPG by (simp add: well_formed_def)
  ultimately show ?thesis
    using new_CollectionPG_ok [of "[]" h] Cls_CollectionPG that
    by (auto simp: new_obj_def)
qed

lemma applied_object:
  assumes "well_formed ct" and "c' = ct\<lparr>attrs :=
      (\<lambda>nm. if nm \<in> (\<lambda>i. field_names ct ! i) ` set [0..<n_fields ct]
            then Some (g nm) else attrs ct nm)\<rparr>"
  shows "well_formed c'" and "klass c' = klass ct" and "field_names c' = field_names ct"
    and "\<forall>i < n_fields ct. getitem c' (KInt (int i)) = Inr (Item (g (field_names ct ! i)))"
proof -
  have len: "n_fields ct = length (field_names ct)"
    using assms(1) by (simp add: well_formed_def)
  show "klass c' = klass ct" "field_names c' = field_names ct"
    by (simp_all add: assms(2))
  show wf: "well_formed c'"
    using assms(1) by (auto simp: well_formed_def assms(2))
  show "\<forall>i < n_fields ct. getitem c' (KInt (int i)) = Inr (Item (g (field_names ct ! i)))"
  proof (intro allI impI)
    fix i assume i: "i < n_fields ct"
    then have "field_names ct ! i \<in> (\<lambda>i. field_names ct ! i) ` set [0..<n_fields ct]"
      by simp
    then have "attrs c' (field_names ct ! i) = Some (g (field_names ct ! i))"
      by (simp add: assms(2))
    then have "slot c' (field_names c' ! i) = g (field_names ct ! i)"
      by (simp add: slot_def assms(2))
    moreover have "i < n_fields c'" using i by (simp add: assms(2))
    ultimately show "getitem c' (KInt (int i)) = Inr (Item (g (field_names ct ! i)))"
      using getitem_by_idx_ok [OF wf, of i] by simp
  qed
qed

text \<open>
  Claim C6. Let \<open>c\<close> be the collection at the allocated address \<open>a\<close>. \<^verbatim>\<open>c.apply(f)\<close> returns a
  newly allocated collection of the same class and schema whose value at every index is
  \<open>f\<close> of the value \<open>c\<close> has there, and leaves \<open>c\<close> and every other existing object as they
  were. \<^verbatim>\<open>c.apply(f, inplace=True)\<close> returns \<open>a\<close> itself, and afterwards the value at every
  index is \<open>f\<close> of the value that was there before; the schema of a collection is a list of
  unique names (data model of the specification), which is what the in-place case needs.
\<close>

theorem apply_contract:
  assumes "well_formed (objs h a)" and "a < lim h"
  shows
    "(\<exists>h'. collection_apply h a (Fun1 f) False False = Inr (lim h, h') \<and>
        lim h' = Suc (lim h) \<and>
        (\<forall>b. b \<noteq> lim h \<longrightarrow> objs h' b = objs h b) \<and>
        well_formed (objs h' (lim h)) \<and>
        klass (objs h' (lim h)) = klass (objs h a) \<and>
        field_names (objs h' (lim h)) = field_names (objs h a) \<and>
        (\<forall>i < n_fields (objs h a).
           getitem (objs h' (lim h)) (KInt (int i)) = Inr (Item (f (value_at (objs h a) i))))) \<and>
     (distinct (field_names (objs h a)) \<longrightarrow>
       (\<exists>h'. collection_apply h a (Fun1 f) True False = Inr (a, h') \<and>
          lim h' = lim h \<and>
          (\<forall>b. b \<noteq> a \<longrightarrow> objs h' b = objs h b) \<and>
          well_formed (objs h' a) \<and>
          klass (objs h' a) = klass (objs h a) \<and>
          field_names (objs h' a) = field_names (objs h a) \<and>
          (\<forall>i < n_fields (objs h a).
             getitem (objs h' a) (KInt (int i)) = Inr (Item (f (value_at (objs h a) i))))))"
proof (intro conjI impI)
  define ca where "ca = objs h a"
  obtain c0 where c0: "new_obj h a = Inr (alloc h c0)" "well_formed c0"
      "klass c0 = klass ca" "field_names c0 = field_names ca"
    using new_obj_ok [OF assms(1)] unfolding ca_def by blast
  define t where "t = lim h"
  define h0 where "h0 = snd (alloc h c0)"
  have ne: "a \<noteq> t" using assms(2) by (simp add: t_def)
  have al: "alloc h c0 = (t, h0)" by (simp add: alloc_def t_def h0_def)
  have src: "objs h0 a = ca" using ne by (simp add: h0_def ca_def t_def)
  have tgt: "objs h0 t = c0" by (simp add: h0_def t_def)
  have wfa: "well_formed ca" using assms(1) by (simp add: ca_def)
  have n0: "n_fields c0 = n_fields ca"
    using c0(2,4) wfa by (simp add: well_formed_def)
  define c1 where "c1 = c0\<lparr>attrs :=
      (\<lambda>nm. if nm \<in> (\<lambda>i. field_names c0 ! i) ` set [0..<n_fields c0]
            then Some (f (slot ca nm)) else attrs c0 nm)\<rparr>"
  have loop: "apply_loop h0 a t (Fun1 f) False [0..<n_fields ca] = Inr (put h0 t c1)"
    using apply_loop_result [of h0 a t "[0..<n_fields ca]" f] ne wfa c0(2,4)
    by (simp add: src tgt c1_def n0 cong: if_cong)
  have run: "collection_apply h a (Fun1 f) False False = Inr (lim h, put h0 t c1)"
    using loop by (simp add: collection_apply_def c0(1) al src) (simp add: t_def)
  note obj = applied_object [OF c0(2) c1_def]
  have "lim (put h0 t c1) = Suc (lim h)"
    by (simp add: h0_def)
  moreover have "\<forall>b. b \<noteq> lim h \<longrightarrow> objs (put h0 t c1) b = objs h b"
    by (simp add: h0_def t_def)
  moreover have "objs (put h0 t c1) (lim h) = c1"
    by (simp add: t_def)
  moreover have "\<forall>i < n_fields ca.
      getitem c1 (KInt (int i)) = Inr (Item (f (value_at ca i)))"
    using obj(4) by (simp add: n0 c0(4) value_at_def)
  ultimately show "\<exists>h'. collection_apply h a (Fun1 f) False False = Inr (lim h, h') \<and>
        lim h' = Suc (lim h) \<and>
        (\<forall>b. b \<noteq> lim h \<longrightarrow> objs h' b = objs h b) \<and>
        well_formed (objs h' (lim h)) \<and>
        klass (objs h' (lim h)) = klass (objs h a) \<and>
        field_names (objs h' (lim h)) = field_names (objs h a) \<and>
        (\<forall>i < n_fields (objs h a).
           getitem (objs h' (lim h)) (KInt (int i)) = Inr (Item (f (value_at (objs h a) i))))"
    using run obj(1,2,3) c0(3,4) by (auto simp: ca_def)
next
  assume d: "distinct (field_names (objs h a))"
  define ca where "ca = objs h a"
  have wfa: "well_formed ca" using assms(1) by (simp add: ca_def)
  define c1 where "c1 = ca\<lparr>attrs :=
      (\<lambda>nm. if nm \<in> (\<lambda>i. field_names ca ! i) ` set [0..<n_fields ca]
            then Some (f (slot ca nm)) else attrs ca nm)\<rparr>"
  have loop: "apply_loop h a a (Fun1 f) False [0..<n_fields ca] = Inr (put h a c1)"
    using apply_loop_result [of h a a "[0..<n_fields ca]" f] wfa d
    by (simp add: ca_def [symmetric] c1_def cong: if_cong)
  have run: "collection_apply h a (Fun1 f) True False = Inr (a, put h a c1)"
    using loop by (simp add: collection_apply_def ca_def)
  note obj = applied_object [OF wfa c1_def]
  have "\<forall>i < n_fields ca. getitem c1 (KInt (int i)) = Inr (Item (f (value_at ca i)))"
    using obj(4) by (simp add: value_at_def)
  then show "\<exists>h'. collection_apply h a (Fun1 f) True False = Inr (a, h') \<and>
          lim h' = lim h \<and>
          (\<forall>b. b \<noteq> a \<longrightarrow> objs h' b = objs h b) \<and>
          well_formed (objs h' a) \<and>
          klass (objs h' a) = klass (objs h a) \<and>
          field_names (objs h' a) = field_names (objs h a) \<and>
          (\<forall>i < n_fields (objs h a).
             getitem (objs h' a) (KInt (int i)) = Inr (Item (f (value_at (objs h a) i))))"
    using run obj(1,2,3) by (auto simp: ca_def)
qed

theorem apply_contract_witness:
  "(well_formed (objs pg_heap 0) \<and> 0 < lim pg_heap \<and> distinct (field_names (objs pg_heap 0))) \<and>
   fst (projr (collection_apply pg_heap 0 (Fun1 add_hundred) False False)) = 1 \<and>
   objs (snd (projr (collection_apply pg_heap 0 (Fun1 add_hundred) False False))) 0 = pg_example \<and>
   getitem (objs (snd (projr (collection_apply pg_heap 0 (Fun1 add_hundred) False False))) 1)
     (KInt 9) = Inr (Item (Obj 112)) \<and>
   fst (projr (collection_apply pg_heap 0 (Fun1 add_hundred) True False)) = 0 \<and>
   getitem (objs (snd (projr (collection_apply pg_heap 0 (Fun1 add_hundred) True False))) 0)
     (KInt 9) = Inr (Item (Obj 112))"
proof -
  have A: "well_formed (objs pg_heap 0)" "0 < lim pg_heap"
    by (simp_all add: pg_heap_eq pg_example_well_formed)
  have D: "distinct (field_names (objs pg_heap 0))"
    by (simp add: pg_heap_eq pg_example_fields(1) pg_field_names_def)
  have v: "add_hundred (value_at (objs pg_heap 0) 9) = Obj 112"
    by (simp add: value_at_def pg_heap_eq pg_example_fields(1) pg_field_names_def pg_slots
        add_hundred_def)
  have n: "9 < n_fields (objs pg_heap 0)"
    by (simp add: pg_heap_eq pg_example_fields(2))
  note T = apply_contract [OF A, of add_hundred]
  from T obtain h1 where h1:
    "collection_apply pg_heap 0 (Fun1 add_hundred) False False = Inr (lim pg_heap, h1)"
    "\<forall>b. b \<noteq> lim pg_heap \<longrightarrow> objs h1 b = objs pg_heap b"
    "\<forall>i < n_fields (objs pg_heap 0).
       getitem (objs h1 (lim pg_heap)) (KInt (int i))
         = Inr (Item (add_hundred (value_at (objs pg_heap 0) i)))"
    by blast
  from T D obtain h2 where h2:
    "collection_apply pg_heap 0 (Fun1 add_hundred) True False = Inr (0, h2)"
    "\<forall>i < n_fields (objs pg_heap 0).
       getitem (objs h2 0) (KInt (int i))
         = Inr (Item (add_hundred (value_at (objs pg_heap 0) i)))"
    by blast
  have g1: "getitem (objs h1 1) (KInt 9) = Inr (Item (Obj 112))"
    using h1(3) [rule_format, OF n] by (simp add: v pg_heap_eq(2))
  have g2: "getitem (objs h2 0) (KInt 9) = Inr (Item (Obj 112))"
    using h2(2) [rule_format, OF n] by (simp add: v)
  have u: "objs h1 0 = pg_example"
    using h1(2) by (simp add: pg_heap_eq)
  show ?thesis
    using A D g1 g2 u by (simp add: h1(1) h2(1) pg_heap_eq(2))
qed

section \<open>generate\_collection and copy\<close>

lemma select_names_ok:
  "idx + length names \<le> length msk \<Longrightarrow>
   select_names names msk idx = Inr (map fst (filter snd (zip names (drop idx msk))))"
proof (induction names arbitrary: idx)
  case Nil
  then show ?case by simp
next
  case (Cons n names)
  then have lt: "idx < length msk" by simp
  then have d: "drop idx msk = msk ! idx # drop (Suc idx) msk"
    by (simp add: Cons_nth_drop_Suc)
  have "select_names names msk (Suc idx)
      = Inr (map fst (filter snd (zip names (drop (Suc idx) msk))))"
    using Cons.prems by (intro Cons.IH) simp
  then show ?case
    using lt by (simp add: py_index_nat d)
qed

lemma collect_selected_ok:
  assumes "well_formed c"
  shows "set names \<subseteq> set (field_names c) \<Longrightarrow> idx + length names \<le> length msk \<Longrightarrow>
   collect_selected c names msk idx d =
     Inr (fold (\<lambda>n. AList.update n (slot c n))
            (map fst (filter snd (zip names (drop idx msk)))) d)"
proof (induction names arbitrary: idx d)
  case Nil
  then show ?case by simp
next
  case (Cons n names)
  then have lt: "idx < length msk" by simp
  then have dr: "drop idx msk = msk ! idx # drop (Suc idx) msk"
    by (simp add: Cons_nth_drop_Suc)
  have IH: "collect_selected c names msk (Suc idx) d' =
     Inr (fold (\<lambda>n. AList.update n (slot c n))
            (map fst (filter snd (zip names (drop (Suc idx) msk)))) d')" for d'
    using Cons.prems by (intro Cons.IH) simp_all
  have "n \<in> set (field_names c)" using Cons.prems by simp
  then show ?case
    using lt assms by (simp add: py_index_nat dr IH getitem_by_name_ok)
qed

lemma collect_fields_ok:
  assumes "well_formed c"
  shows "set names \<subseteq> set (field_names c) \<Longrightarrow>
   collect_fields c names d = Inr (fold (\<lambda>n. AList.update n (slot c n)) names d)"
  by (induction names arbitrary: d) (simp_all add: getitem_by_name_ok assms)

lemma fold_update_self_keys:
  "fst ` set (fold (\<lambda>n. AList.update n (g n)) ns []) = set ns"
  using fold_update_keys [of "\<lambda>n. n" g ns "[]"] by simp

lemma fold_update_self_lookup:
  "n \<in> set ns \<Longrightarrow> map_of (fold (\<lambda>n. AList.update n (g n)) ns d) n = Some (g n)"
proof -
  assume n: "n \<in> set ns"
  then have "filter (\<lambda>m. m = n) ns \<noteq> []"
    by (auto simp: filter_empty_conv)
  then have "last (filter (\<lambda>m. m = n) ns) \<in> set (filter (\<lambda>m. m = n) ns)"
    by (rule last_in_set)
  then have "last (filter (\<lambda>m. m = n) ns) = n" by simp
  then show ?thesis
    using n fold_update_lookup [of "\<lambda>n. n" g ns d n] by simp
qed

lemma selected_subset: "set (map fst (filter snd (zip names msk))) \<subseteq> set names"
  by (auto dest: set_zip_leftD)

lemma generate_collection_ok:
  assumes "well_formed (objs h a)" and "length msk = n_fields (objs h a)"
    and "''self'' \<notin> set (map fst (filter snd (zip (field_names (objs h a)) msk)))"
    and "''names'' \<notin> set (map fst (filter snd (zip (field_names (objs h a)) msk)))"
  obtains c where "generate_collection h a msk = Inr (alloc h c)"
    and "well_formed c" and "klass c = Cls_LabeledCollection" and "\<not> is_locked c"
    and "field_names c = map fst (filter snd (zip (field_names (objs h a)) msk))"
    and "\<forall>n \<in> set (field_names c). slot c n = slot (objs h a) n"
proof -
  define ca where "ca = objs h a"
  define new_names where "new_names = map fst (filter snd (zip (field_names ca) msk))"
  define flds where "flds = fold (\<lambda>n. AList.update n (slot ca n)) new_names []"
  have wfa: "well_formed ca" using assms(1) by (simp add: ca_def)
  have len: "length msk = length (field_names ca)"
    using assms by (simp add: ca_def well_formed_def)
  have sel: "select_names (field_names ca) msk 0 = Inr new_names"
    using select_names_ok [of 0 "field_names ca" msk] len by (simp add: new_names_def)
  have col: "collect_selected ca (field_names ca) msk 0 [] = Inr flds"
    using collect_selected_ok [OF wfa, of "field_names ca" 0 msk "[]"] len
    by (simp add: flds_def new_names_def)
  have keys: "fst ` set flds \<subseteq> set new_names"
    by (simp add: flds_def fold_update_self_keys)
  have free: "''self'' \<notin> fst ` set flds" "''names'' \<notin> fst ` set flds"
    using assms(3,4) keys unfolding new_names_def ca_def by blast+
  have "set new_names \<subseteq> set (field_names ca)"
    unfolding new_names_def by (rule selected_subset)
  moreover have "\<forall>nm \<in> set (field_names ca). \<not> own_attribute nm"
    using wfa by (simp add: well_formed_def)
  ultimately have plain: "\<forall>nm \<in> set new_names. \<not> own_attribute nm"
    by blast
  obtain c where c: "new_LabeledCollection h new_names flds = Inr (alloc h c)"
      "well_formed c" "klass c = Cls_LabeledCollection" "field_names c = new_names"
      "\<not> is_locked c"
      "\<And>n. attrs c n = (if n \<in> set new_names
           then Some (case map_of flds n of Some v \<Rightarrow> v | None \<Rightarrow> PyNone) else None)"
    using new_LabeledCollection_ok [OF keys plain free, of h] by blast
  have run: "generate_collection h a msk = Inr (alloc h c)"
    using assms(2) sel col c(1) by (simp add: generate_collection_def Let_def ca_def)
  have "slot c n = slot ca n" if "n \<in> set (field_names c)" for n
    using that c(4) c(6) [of n] fold_update_self_lookup [of n new_names "slot ca" "[]"]
    by (simp add: slot_def flds_def)
  then show thesis
    using that [OF run c(2,3,5)] c(4) by (simp add: new_names_def ca_def)
qed

text \<open>
  What \<^verbatim>\<open>generate_collection\<close> does when no selected field is called \<^verbatim>\<open>self\<close> or
  \<^verbatim>\<open>names\<close>: for a mask as long as the collection it returns a newly allocated
  \<^verbatim>\<open>LabeledCollection\<close> whose names are the names of \<open>c\<close> at the positions where the mask
  is true, in order, each holding the value \<open>c\<close> has under that name. The two objects are
  separate: an assignment to a slot of the result leaves \<open>c\<close> as it was, and an
  assignment to a slot of \<open>c\<close> leaves the result as it was.
\<close>

lemma generate_collection_independent:
  assumes "well_formed (objs h a)" and "a < lim h" and "length msk = n_fields (objs h a)"
    and "''self'' \<notin> set (map fst (filter snd (zip (field_names (objs h a)) msk)))"
    and "''names'' \<notin> set (map fst (filter snd (zip (field_names (objs h a)) msk)))"
  shows
    "\<exists>h'. generate_collection h a msk = Inr (lim h, h') \<and>
        lim h' = Suc (lim h) \<and>
        (\<forall>b. b \<noteq> lim h \<longrightarrow> objs h' b = objs h b) \<and>
        well_formed (objs h' (lim h)) \<and>
        klass (objs h' (lim h)) = Cls_LabeledCollection \<and>
        field_names (objs h' (lim h))
          = map fst (filter snd (zip (field_names (objs h a)) msk)) \<and>
        (\<forall>n \<in> set (field_names (objs h' (lim h))).
           getitem (objs h' (lim h)) (KStr n) = Inr (Item (slot (objs h a) n)) \<and>
           getitem (objs h a) (KStr n) = Inr (Item (slot (objs h a) n)) \<and>
           (\<forall>x. \<exists>h''. heap_setitem h' (lim h) (KStr n) x = Inr h'' \<and>
                 getitem (objs h'' (lim h)) (KStr n) = Inr (Item x) \<and>
                 objs h'' a = objs h a)) \<and>
        (\<forall>m \<in> set (field_names (objs h a)).
           \<forall>x. \<exists>h''. heap_setitem h' a (KStr m) x = Inr h'' \<and>
                 getitem (objs h'' a) (KStr m) = Inr (Item x) \<and>
                 objs h'' (lim h) = objs h' (lim h))"
proof -
  obtain c where c: "generate_collection h a msk = Inr (alloc h c)"
      "well_formed c" "klass c = Cls_LabeledCollection"
      "field_names c = map fst (filter snd (zip (field_names (objs h a)) msk))"
      "\<forall>n \<in> set (field_names c). slot c n = slot (objs h a) n"
    using generate_collection_ok [OF assms(1,3,4,5)] by blast
  define r where "r = lim h"
  define h' where "h' = snd (alloc h c)"
  have ne: "a \<noteq> r" using assms(2) by (simp add: r_def)
  have run: "generate_collection h a msk = Inr (r, h')"
    by (simp add: c(1) alloc_def r_def h'_def)
  have obj_r: "objs h' r = c" by (simp add: h'_def r_def)
  have obj_a: "objs h' a = objs h a" using ne by (simp add: h'_def r_def)
  have sub: "set (field_names c) \<subseteq> set (field_names (objs h a))"
    using selected_subset [of "field_names (objs h a)" msk] by (simp add: c(4))
  have part1: "getitem c (KStr n) = Inr (Item (slot (objs h a) n)) \<and>
           getitem (objs h a) (KStr n) = Inr (Item (slot (objs h a) n)) \<and>
           (\<forall>x. \<exists>h''. heap_setitem h' r (KStr n) x = Inr h'' \<and>
                 getitem (objs h'' r) (KStr n) = Inr (Item x) \<and>
                 objs h'' a = objs h a)"
    if n: "n \<in> set (field_names c)" for n
  proof (intro conjI allI)
    show "getitem c (KStr n) = Inr (Item (slot (objs h a) n))"
      using n c(2,5) by (simp add: getitem_by_name_ok)
    show "getitem (objs h a) (KStr n) = Inr (Item (slot (objs h a) n))"
      using n sub assms(1) by (auto simp: getitem_by_name_ok)
    fix x
    have "heap_setitem h' r (KStr n) x = Inr (put h' r (c\<lparr>attrs := (attrs c)(n \<mapsto> x)\<rparr>))"
      using n c(2) by (simp add: heap_setitem_def obj_r setitem_by_name_ok)
    moreover have "getitem (objs (put h' r (c\<lparr>attrs := (attrs c)(n \<mapsto> x)\<rparr>)) r) (KStr n)
        = Inr (Item x)"
      using getitem_after_write [OF c(2) n] by simp
    moreover have "objs (put h' r (c\<lparr>attrs := (attrs c)(n \<mapsto> x)\<rparr>)) a = objs h a"
      using ne obj_a by simp
    ultimately show "\<exists>h''. heap_setitem h' r (KStr n) x = Inr h'' \<and>
                 getitem (objs h'' r) (KStr n) = Inr (Item x) \<and>
                 objs h'' a = objs h a"
      by blast
  qed
  have part2: "\<exists>h''. heap_setitem h' a (KStr m) x = Inr h'' \<and>
                 getitem (objs h'' a) (KStr m) = Inr (Item x) \<and>
                 objs h'' r = objs h' r"
    if m: "m \<in> set (field_names (objs h a))" for m x
  proof -
    let ?ca = "objs h a"
    have "heap_setitem h' a (KStr m) x = Inr (put h' a (?ca\<lparr>attrs := (attrs ?ca)(m \<mapsto> x)\<rparr>))"
      using m assms(1) by (simp add: heap_setitem_def obj_a setitem_by_name_ok)
    moreover have "getitem (objs (put h' a (?ca\<lparr>attrs := (attrs ?ca)(m \<mapsto> x)\<rparr>)) a) (KStr m)
        = Inr (Item x)"
      using getitem_after_write [OF assms(1) m] by simp
    moreover have "objs (put h' a (?ca\<lparr>attrs := (attrs ?ca)(m \<mapsto> x)\<rparr>)) r = objs h' r"
      using ne by simp
    ultimately show ?thesis by blast
  qed
  have "lim h' = Suc (lim h)" by (simp add: h'_def)
  moreover have "\<forall>b. b \<noteq> lim h \<longrightarrow> objs h' b = objs h b" by (simp add: h'_def)
  ultimately show ?thesis
    using run obj_r c(2,3,4) part1 part2 unfolding r_def [symmetric]
    by (intro exI [of _ h']) simp
qed

lemma copy_clash:
  assumes "well_formed (objs h a)" and "klass (objs h a) = Cls_LabeledCollection"
    and "''self'' \<in> set (field_names (objs h a)) \<or> ''names'' \<in> set (field_names (objs h a))"
  shows "copy h a = Inl TypeError"
proof -
  define ca where "ca = objs h a"
  define flds where "flds = fold (\<lambda>n. AList.update n (slot ca n)) (field_names ca) []"
  have wfa: "well_formed ca" using assms(1) by (simp add: ca_def)
  have col: "collect_fields ca (field_names ca) [] = Inr flds"
    using collect_fields_ok [OF wfa, of "field_names ca" "[]"] by (simp add: flds_def)
  have "fst ` set flds = set (field_names ca)"
    by (simp add: flds_def fold_update_self_keys)
  moreover have "''self'' \<in> set (field_names ca) \<or> ''names'' \<in> set (field_names ca)"
    using assms(3) unfolding ca_def .
  ultimately have "\<exists>k \<in> fst ` set flds. k \<in> set [''self'', ''names'']"
    by (metis list.set_intros(1) list.set_intros(2))
  then have "bind_keywords [''self'', ''names''] flds = Inl TypeError"
    by (rule bind_keywords_fail)
  then have "new_LabeledCollection h (field_names ca) flds = Inl TypeError"
    by (simp add: new_LabeledCollection_def LabeledCollection_init_def)
  then show ?thesis
    using col assms(2) by (simp add: copy_def Let_def ca_def)
qed

text \<open>
  Claim C8 (not met by the code). \<^verbatim>\<open>generate_collection\<close> hands the selected values to the
  constructor as keyword arguments, \<^verbatim>\<open>LabeledCollection(new_names, **{fname: ...})\<close>. Whenever
  a selected field is called \<^verbatim>\<open>names\<close> or \<^verbatim>\<open>self\<close>, the key collides with the
  constructor's own parameter and the call raises \<^verbatim>\<open>TypeError\<close>, although the collection
  meets the invariant and the mask has the right length. The instance below is
  \<^verbatim>\<open>LabeledCollection(['names', 'b'], b=x2)\<close>, which the constructor builds: every mask
  that selects the first field fails and a mask that leaves it out succeeds. \<^verbatim>\<open>copy\<close>
  passes the values the same way and fails on the same collection, whereas \<^verbatim>\<open>apply\<close>,
  which builds its new collection through \<^verbatim>\<open>_new_obj\<close> and assigns by index, succeeds
  on it.
\<close>

theorem generate_collection_keyword_clash:
  assumes "well_formed (objs h a)" and "length msk = n_fields (objs h a)"
    and "''self'' \<in> set (map fst (filter snd (zip (field_names (objs h a)) msk)))
         \<or> ''names'' \<in> set (map fst (filter snd (zip (field_names (objs h a)) msk)))"
  shows "generate_collection h a msk = Inl TypeError"
proof -
  define ca where "ca = objs h a"
  define new_names where "new_names = map fst (filter snd (zip (field_names ca) msk))"
  define flds where "flds = fold (\<lambda>n. AList.update n (slot ca n)) new_names []"
  have wfa: "well_formed ca" using assms(1) by (simp add: ca_def)
  have len: "length msk = length (field_names ca)"
    using assms by (simp add: ca_def well_formed_def)
  have sel: "select_names (field_names ca) msk 0 = Inr new_names"
    using select_names_ok [of 0 "field_names ca" msk] len by (simp add: new_names_def)
  have col: "collect_selected ca (field_names ca) msk 0 [] = Inr flds"
    using collect_selected_ok [OF wfa, of "field_names ca" 0 msk "[]"] len
    by (simp add: flds_def new_names_def)
  have "fst ` set flds = set new_names"
    by (simp add: flds_def fold_update_self_keys)
  moreover have "''self'' \<in> set new_names \<or> ''names'' \<in> set new_names"
    using assms(3) unfolding new_names_def ca_def .
  ultimately have "\<exists>k \<in> fst ` set flds. k \<in> set [''self'', ''names'']"
    by (metis list.set_intros(1) list.set_intros(2))
  then have "bind_keywords [''self'', ''names''] flds = Inl TypeError"
    by (rule bind_keywords_fail)
  then have "new_LabeledCollection h new_names flds = Inl TypeError"
    by (simp add: new_LabeledCollection_def LabeledCollection_init_def)
  then show ?thesis
    using assms(2) sel col by (simp add: generate_collection_def Let_def ca_def)
qed

theorem generate_collection_keyword_clash_witness:
  "\<not> isl (new_LabeledCollection (empty_heap :: nat heap) [''names'', ''b''] [(''b'', Obj 12)]) \<and>
   fst (projr (new_LabeledCollection (empty_heap :: nat heap) [''names'', ''b'']
      [(''b'', Obj 12)])) = 0 \<and>
   well_formed (objs names_heap 0) \<and>
   field_names (objs names_heap 0) = [''names'', ''b''] \<and>
   length [True, True] = n_fields (objs names_heap 0) \<and>
   generate_collection names_heap 0 [True, True] = Inl TypeError \<and>
   generate_collection names_heap 0 [True, False] = Inl TypeError \<and>
   \<not> isl (generate_collection names_heap 0 [False, True]) \<and>
   copy names_heap 0 = Inl TypeError \<and>
   \<not> isl (collection_apply names_heap 0 (Fun1 add_hundred) False False)"
proof -
  have keys: "fst ` set [(''b'', Obj (12::nat))] \<subseteq> set [''names'', ''b'']"
    by simp
  have plain: "\<forall>nm \<in> set [''names'', ''b'']. \<not> own_attribute nm"
    by (simp add: own_attribute_def class_members_def)
  obtain c where c: "new_LabeledCollection (empty_heap :: nat heap) [''names'', ''b'']
        [(''b'', Obj 12)] = Inr (alloc empty_heap c)"
      "well_formed c" "field_names c = [''names'', ''b'']" "klass c = Cls_LabeledCollection"
    using new_LabeledCollection_ok [OF keys plain, of empty_heap] by auto
  have l0: "lim (empty_heap :: nat heap) = 0"
    by (simp add: empty_heap_def)
  have obj: "objs names_heap 0 = c"
    using alloc_simps(2) [of empty_heap c] by (simp add: names_heap_def c(1) l0)
  have made: "\<not> isl (new_LabeledCollection (empty_heap :: nat heap) [''names'', ''b'']
      [(''b'', Obj 12)])"
    "fst (projr (new_LabeledCollection (empty_heap :: nat heap) [''names'', ''b'']
      [(''b'', Obj 12)])) = 0"
    using alloc_simps(1) [of empty_heap c] by (simp_all add: c(1) l0)
  have wf: "well_formed (objs names_heap 0)" "field_names (objs names_heap 0) = [''names'', ''b'']"
    using c(2,3) by (simp_all add: obj)
  have n: "length [True, True] = n_fields (objs names_heap 0)"
    using wf by (simp add: well_formed_def)
  have g1: "generate_collection names_heap 0 [True, True] = Inl TypeError"
    using wf n by (intro generate_collection_keyword_clash) simp_all
  have g2: "generate_collection names_heap 0 [True, False] = Inl TypeError"
    using wf n by (intro generate_collection_keyword_clash) simp_all
  have g3: "\<not> isl (generate_collection names_heap 0 [False, True])"
    by code_simp
  have g4: "copy names_heap 0 = Inl TypeError"
    using wf c(4) by (intro copy_clash) (simp_all add: obj)
  have g5: "\<not> isl (collection_apply names_heap 0 (Fun1 add_hundred) False False)"
    by code_simp
  show ?thesis
    using made wf n g1 g2 g3 g4 g5 by blast
qed

section \<open>Schema lock\<close>

lemma copy_pg_ok:
  assumes "well_formed (objs h a)" and "klass (objs h a) = Cls_CollectionPG"
  obtains c where "copy h a = Inr (alloc h c)"
    and "well_formed c" and "klass c = Cls_CollectionPG" and "is_locked c"
    and "\<forall>n \<in> set pg_field_names. slot c n = slot (objs h a) n"
proof -
  define ca where "ca = objs h a"
  define flds where "flds = fold (\<lambda>n. AList.update n (slot ca n)) (field_names ca) []"
  have wfa: "well_formed ca" using assms(1) by (simp add: ca_def)
  have names: "field_names ca = pg_field_names"
    using assms by (simp add: ca_def well_formed_def)
  have col: "collect_fields ca (field_names ca) [] = Inr flds"
    using collect_fields_ok [OF wfa, of "field_names ca" "[]"] by (simp add: flds_def)
  have keys: "fst ` set flds \<subseteq> set pg_field_names"
    by (simp add: flds_def fold_update_self_keys names)
  obtain c where c: "new_CollectionPG h flds = Inr (alloc h c)"
      "well_formed c" "klass c = Cls_CollectionPG" "is_locked c"
      "\<And>n. attrs c n = (if n \<in> set pg_field_names
           then Some (case map_of flds n of Some v \<Rightarrow> v | None \<Rightarrow> PyNone) else None)"
    using new_CollectionPG_ok [OF keys, of h] by blast
  have run: "copy h a = Inr (alloc h c)"
    using col c(1) assms(2) by (simp add: copy_def Let_def ca_def)
  have "slot c n = slot ca n" if "n \<in> set pg_field_names" for n
    using that c(5) [of n] fold_update_self_lookup [of n "field_names ca" "slot ca" "[]"]
    by (simp add: slot_def flds_def names)
  then show thesis
    using that [OF run c(2,3,4)] by (simp add: ca_def)
qed

text \<open>
  Claim C10. For a \<^verbatim>\<open>CollectionPG\<close> \<open>c\<close> (which is locked) and a mask of length 21,
  \<^verbatim>\<open>generate_collection\<close> returns an object of class \<^verbatim>\<open>LabeledCollection\<close> that is not
  locked: assigning an attribute under any new name (one the classes do not define
  themselves) succeeds on it and creates the attribute, whereas \<open>c\<close> raises
  \<^verbatim>\<open>AttributeError\<close> for every such name it has no attribute for. \<^verbatim>\<open>c.copy()\<close> in contrast
  returns a \<^verbatim>\<open>CollectionPG\<close> with the same values that is locked again.
\<close>

theorem generated_collection_not_locked:
  assumes "well_formed (objs h a)" and "klass (objs h a) = Cls_CollectionPG"
    and "a < lim h" and "length msk = 21"
  shows
    "(\<exists>h'. generate_collection h a msk = Inr (lim h, h') \<and>
        klass (objs h' (lim h)) = Cls_LabeledCollection \<and>
        \<not> is_locked (objs h' (lim h)) \<and>
        (\<forall>nm x. \<not> own_attribute nm \<longrightarrow>
           heap_setattr h' (lim h) nm x
             = Inr (put h' (lim h)
                 ((objs h' (lim h))\<lparr>attrs := (attrs (objs h' (lim h)))(nm \<mapsto> x)\<rparr>))) \<and>
        (\<forall>nm x. \<not> own_attribute nm \<and> \<not> hasattr (objs h a) nm \<longrightarrow>
           heap_setattr h a nm x = Inl AttributeError \<and>
           heap_setattr h' a nm x = Inl AttributeError)) \<and>
     (\<exists>h2. copy h a = Inr (lim h, h2) \<and>
        klass (objs h2 (lim h)) = Cls_CollectionPG \<and>
        is_locked (objs h2 (lim h)) \<and>
        (\<forall>n \<in> set pg_field_names. slot (objs h2 (lim h)) n = slot (objs h a) n) \<and>
        (\<forall>nm x. \<not> own_attribute nm \<and> \<not> hasattr (objs h2 (lim h)) nm \<longrightarrow>
           heap_setattr h2 (lim h) nm x = Inl AttributeError))"
proof (intro conjI)
  have locked: "is_locked (objs h a)" and n: "n_fields (objs h a) = 21"
    using assms(1,2) by (simp_all add: well_formed_def pg_field_names_def)
  have len: "length msk = n_fields (objs h a)" using assms(4) n by simp
  have "set (map fst (filter snd (zip (field_names (objs h a)) msk))) \<subseteq> set pg_field_names"
    using selected_subset [of "field_names (objs h a)" msk] assms(1,2)
    by (simp add: well_formed_def)
  then have free:
    "''self'' \<notin> set (map fst (filter snd (zip (field_names (objs h a)) msk)))"
    "''names'' \<notin> set (map fst (filter snd (zip (field_names (objs h a)) msk)))"
    by (auto simp: pg_field_names_def)
  obtain c where c: "generate_collection h a msk = Inr (alloc h c)"
      "klass c = Cls_LabeledCollection" "\<not> is_locked c"
    using generate_collection_ok [OF assms(1) len free] by blast
  define h' where "h' = snd (alloc h c)"
  have ne: "a \<noteq> lim h" using assms(3) by simp
  have run: "generate_collection h a msk = Inr (lim h, h')"
    by (simp add: c(1) alloc_def h'_def)
  have obj_r: "objs h' (lim h) = c" by (simp add: h'_def)
  have obj_a: "objs h' a = objs h a" using ne by (simp add: h'_def)
  have "heap_setattr h' (lim h) nm x
      = Inr (put h' (lim h) (c\<lparr>attrs := (attrs c)(nm \<mapsto> x)\<rparr>))" for nm x
    using c(3) by (simp add: heap_setattr_def setattr_def obj_r)
  moreover have "heap_setattr h a nm x = Inl AttributeError \<and>
      heap_setattr h' a nm x = Inl AttributeError" if "\<not> hasattr (objs h a) nm" for nm x
    using that locked by (simp add: heap_setattr_def setattr_def obj_a)
  ultimately show "\<exists>h'. generate_collection h a msk = Inr (lim h, h') \<and>
        klass (objs h' (lim h)) = Cls_LabeledCollection \<and>
        \<not> is_locked (objs h' (lim h)) \<and>
        (\<forall>nm x. \<not> own_attribute nm \<longrightarrow>
           heap_setattr h' (lim h) nm x
             = Inr (put h' (lim h)
                 ((objs h' (lim h))\<lparr>attrs := (attrs (objs h' (lim h)))(nm \<mapsto> x)\<rparr>))) \<and>
        (\<forall>nm x. \<not> own_attribute nm \<and> \<not> hasattr (objs h a) nm \<longrightarrow>
           heap_setattr h a nm x = Inl AttributeError \<and>
           heap_setattr h' a nm x = Inl AttributeError)"
    using run obj_r c(2,3) by (intro exI [of _ h']) simp
next
  obtain c where c: "copy h a = Inr (alloc h c)" "klass c = Cls_CollectionPG" "is_locked c"
      "\<forall>n \<in> set pg_field_names. slot c n = slot (objs h a) n"
    using copy_pg_ok [OF assms(1,2)] by blast
  define h2 where "h2 = snd (alloc h c)"
  have run: "copy h a = Inr (lim h, h2)"
    by (simp add: c(1) alloc_def h2_def)
  have obj_r: "objs h2 (lim h) = c" by (simp add: h2_def)
  have "heap_setattr h2 (lim h) nm x = Inl AttributeError" if "\<not> hasattr c nm" for nm x
    using that c(3) by (simp add: heap_setattr_def setattr_def obj_r)
  then show "\<exists>h2. copy h a = Inr (lim h, h2) \<and>
        klass (objs h2 (lim h)) = Cls_CollectionPG \<and>
        is_locked (objs h2 (lim h)) \<and>
        (\<forall>n \<in> set pg_field_names. slot (objs h2 (lim h)) n = slot (objs h a) n) \<and>
        (\<forall>nm x. \<not> own_attribute nm \<and> \<not> hasattr (objs h2 (lim h)) nm \<longrightarrow>
           heap_setattr h2 (lim h) nm x = Inl AttributeError)"
    using run obj_r c(2,3,4) by (intro exI [of _ h2]) simp
qed

theorem generated_collection_not_locked_witness:
  "(well_formed (objs pg_heap 0) \<and> klass (objs pg_heap 0) = Cls_CollectionPG \<and>
    0 < lim pg_heap \<and> length equatorial_mask = 21) \<and>
   (\<not> own_attribute ''extra'' \<and> \<not> hasattr (objs pg_heap 0) ''extra'') \<and>
   heap_setattr pg_heap 0 ''extra'' (Obj 19) = Inl AttributeError \<and>
   \<not> is_locked (objs (snd (projr (generate_collection pg_heap 0 equatorial_mask))) 1) \<and>
   \<not> isl (heap_setattr (snd (projr (generate_collection pg_heap 0 equatorial_mask))) 1
          ''extra'' (Obj 19)) \<and>
   is_locked (objs (snd (projr (copy pg_heap 0))) 1) \<and>
   klass (objs (snd (projr (copy pg_heap 0))) 1) = Cls_CollectionPG"
proof -
  have A: "well_formed (objs pg_heap 0)" "klass (objs pg_heap 0) = Cls_CollectionPG"
    "0 < lim pg_heap" "length equatorial_mask = 21"
    by (simp_all add: pg_heap_eq pg_example_well_formed equatorial_mask_def)
  have B: "\<not> own_attribute ''extra'' \<and> \<not> hasattr (objs pg_heap 0) ''extra''"
    by (simp add: own_attribute_def class_members_def hasattr_def pg_heap_eq
        pg_example_fields(7) pg_field_names_def)
  note T = generated_collection_not_locked [OF A]
  from T obtain h' where h':
    "generate_collection pg_heap 0 equatorial_mask = Inr (lim pg_heap, h')"
    "\<not> is_locked (objs h' (lim pg_heap))"
    "\<forall>nm x. \<not> own_attribute nm \<longrightarrow>
           heap_setattr h' (lim pg_heap) nm x
           = Inr (put h' (lim pg_heap)
               ((objs h' (lim pg_heap))\<lparr>attrs := (attrs (objs h' (lim pg_heap)))(nm \<mapsto> x)\<rparr>))"
    "\<forall>nm x. \<not> own_attribute nm \<and> \<not> hasattr (objs pg_heap 0) nm \<longrightarrow>
           heap_setattr pg_heap 0 nm x = Inl AttributeError"
    by blast
  from T obtain h2 where h2:
    "copy pg_heap 0 = Inr (lim pg_heap, h2)"
    "klass (objs h2 (lim pg_heap)) = Cls_CollectionPG"
    "is_locked (objs h2 (lim pg_heap))"
    by blast
  have C: "heap_setattr pg_heap 0 ''extra'' (Obj 19) = Inl AttributeError"
    using h'(4) B by blast
  have D: "\<not> isl (heap_setattr h' (lim pg_heap) ''extra'' (Obj 19))"
    using h'(3) B by simp
  show ?thesis
    using A B C D h'(2) h2(2,3) by (simp add: h'(1) h2(1) pg_heap_eq(2))
qed

end
